theory Spec2Isabelle
  imports Complex_Main "HOL-Library.Monad_Syntax"
begin

section \<open>Vocalis front end: capture buffer, playback queue and session refresh throttle\<close>

text \<open>
  The development embeds the class \<open>AudioService\<close> of
  \<^verbatim>\<open>frontend/src/services/audio.ts\<close> and the handler
  \<open>handleSaveSessionResult\<close> of the session manager component.

  Conventions of the embedding.
  \<^item> The mutable fields of the service are a record; every method takes the record and
    returns the updated one.
  \<^item> Everything a method does to the outside world (a dispatched event, a call of the
    web socket service, a call on a Web Audio source node, a timer being armed or
    cancelled) is appended, in program order, to the field \<open>effects\<close>.
    Event listeners are taken not to call back into the service.
  \<^item> Samples and durations are JavaScript numbers; finite ones are modelled as reals
    (rounding is not modelled). The two places where the code can produce a value that
    is not a finite number (a division by zero) return \<open>None\<close>, and a comparison
    with \<open>None\<close> is false, as it is for \<open>NaN\<close>.
  \<^item> \<open>Date.now()\<close> is an input: an integer number of milliseconds.
  \<^item> Exceptions of the platform that the code catches (\<open>source.start\<close>,
    \<open>source.stop\<close>) are decided by parameters \<open>startThrows\<close> and
    \<open>stopThrows\<close>; a \<open>RangeError\<close> of a typed array or data view is
    the value \<open>None\<close>.
\<close>

subsection \<open>Data model\<close>

datatype AudioState = INACTIVE | RECORDING | PLAYING | SPEAKING | INTERRUPTED

datatype AudioEvent =
    RECORDING_START | RECORDING_STOP | RECORDING_DATA
  | PLAYBACK_START | PLAYBACK_STOP | PLAYBACK_END
  | AUDIO_ERROR | AUDIO_STATE_CHANGE

type_synonym Float32Array = "real list"

type_synonym ArrayBuffer = "nat list"

text \<open>A decoded Web Audio buffer; the code reads only its \<open>duration\<close> (seconds).\<close>

record AudioBuffer =
  duration :: real
  channelData :: Float32Array

text \<open>The shapes of the \<open>data\<close> argument of \<open>dispatchEvent\<close> in the source.\<close>

datatype payload =
    NoData
  | RecordingData Float32Array "real option" bool
      \<comment> \<open>\<open>{buffer, energy, isVoice}\<close>\<close>
  | StopInfo bool AudioState
      \<comment> \<open>\<open>{interrupted, previousState}\<close>\<close>
  | UserInterrupt
      \<comment> \<open>\<open>{interrupted: true, reason: 'user_interrupt'}\<close>\<close>
  | EndInfo AudioState bool bool
      \<comment> \<open>\<open>{previousState, error, timeout}\<close>, an absent flag being \<open>False\<close>\<close>
  | ErrorInfo
      \<comment> \<open>\<open>{error}\<close>\<close>

datatype effect =
    Dispatch AudioEvent payload
  | WsInterrupt
      \<comment> \<open>\<open>websocketService.interrupt()\<close>\<close>
  | WsSendAudio ArrayBuffer
      \<comment> \<open>\<open>websocketService.sendAudio(wavBuffer)\<close>\<close>
  | SourceStart AudioBuffer
      \<comment> \<open>\<open>source.start(...)\<close> returned normally\<close>
  | SourceStop AudioBuffer
      \<comment> \<open>\<open>currentSource.stop()\<close> was called\<close>
  | SetTimeout nat real
      \<comment> \<open>\<open>window.setTimeout(handler, ms)\<close> returned this handle\<close>
  | ClearTimeout nat

record AudioService =
  sampleRate :: nat
  audioContext :: bool
  audioBuffer :: "Float32Array list"
  audioState :: AudioState
  audioQueue :: "AudioBuffer list"
  isPlaying :: bool
  isSpeaking :: bool
  currentSource :: "AudioBuffer option"
  playbackTimeoutId :: "nat option"
  isProcessing :: bool
  isGreeting :: bool
  isVisionProcessing :: bool
  isVoiceDetected :: bool
  voiceThreshold :: real
  silenceTimeout :: int
  lastVoiceTime :: int
  minRecordingLength :: real
  nextTimeoutHandle :: nat
  effects :: "effect list"

text \<open>
  \<open>sampleRate\<close> is \<open>config.sampleRate\<close>; \<open>audioContext\<close> says whether the
  field is non-null; \<open>currentSource\<close> holds the buffer of the source node;
  \<open>nextTimeoutHandle\<close> is the handle the next \<open>window.setTimeout\<close> returns.
\<close>

text \<open>One invocation of the script processor callback: the channel data of the event and
  the values of the first and the second \<open>Date.now()\<close> in the handler.\<close>

record AudioProcessingEvent =
  inputData :: Float32Array
  dateNow1 :: int
  dateNow2 :: int

subsection \<open>Events and platform calls\<close>

definition dispatchEvent :: "AudioService \<Rightarrow> AudioEvent \<Rightarrow> payload \<Rightarrow> AudioService" where
  "dispatchEvent s event data = s\<lparr>effects := effects s @ [Dispatch event data]\<rparr>"

definition emit :: "effect \<Rightarrow> AudioService \<Rightarrow> AudioService" where
  "emit e s = s\<lparr>effects := effects s @ [e]\<rparr>"

text \<open>\<open>if (this.playbackTimeoutId !== null) { clearTimeout(...); this.playbackTimeoutId = null; }\<close>\<close>

definition clearPlaybackTimeout :: "AudioService \<Rightarrow> AudioService" where
  "clearPlaybackTimeout s =
     (case playbackTimeoutId s of
        None \<Rightarrow> s
      | Some h \<Rightarrow> (emit (ClearTimeout h) s)\<lparr>playbackTimeoutId := None\<rparr>)"

text \<open>\<open>this.playbackTimeoutId = window.setTimeout(handler, ms)\<close>\<close>

definition armPlaybackTimeout :: "real \<Rightarrow> AudioService \<Rightarrow> AudioService" where
  "armPlaybackTimeout ms s =
     (emit (SetTimeout (nextTimeoutHandle s) ms) s)
       \<lparr>playbackTimeoutId := Some (nextTimeoutHandle s),
        nextTimeoutHandle := Suc (nextTimeoutHandle s)\<rparr>"

subsection \<open>Numbers that may not be finite\<close>

definition js_gt :: "real option \<Rightarrow> real \<Rightarrow> bool" where
  "js_gt a b = (case a of None \<Rightarrow> False | Some x \<Rightarrow> x > b)"

definition js_le :: "real option \<Rightarrow> real \<Rightarrow> bool" where
  "js_le a b = (case a of None \<Rightarrow> False | Some x \<Rightarrow> x \<le> b)"

definition js_lt :: "real option \<Rightarrow> real \<Rightarrow> bool" where
  "js_lt a b = (case a of None \<Rightarrow> False | Some x \<Rightarrow> x < b)"

subsection \<open>Energy of a frame\<close>

text \<open>\<open>calculateRMSEnergy\<close> (\<^verbatim>\<open>audio.ts\<close>, lines 450-457). The loop adds the squares
  from left to right; \<open>sum / buffer.length\<close> of an empty buffer is \<open>0 / 0 = NaN\<close>.\<close>

definition calculateRMSEnergy :: "Float32Array \<Rightarrow> real option" where
  "calculateRMSEnergy buffer =
     (let sum = foldl (\<lambda>sum x. sum + x * x) 0 buffer
      in if length buffer = 0 then None else Some (sqrt (sum / real (length buffer))))"

subsection \<open>WAV encoding\<close>

text \<open>A \<open>DataView\<close> over an \<open>ArrayBuffer\<close> is the list of its bytes. A write that
  does not fit raises \<open>RangeError\<close> (\<open>None\<close>). Multi-byte writes are little-endian,
  as the source passes \<open>true\<close>; the value is first reduced modulo \<open>2^w\<close>.\<close>

definition setUint8 :: "ArrayBuffer \<Rightarrow> nat \<Rightarrow> nat \<Rightarrow> ArrayBuffer option" where
  "setUint8 view byteOffset v =
     (if byteOffset + 1 \<le> length view then Some (view[byteOffset := v mod 256]) else None)"

definition setUint16 :: "ArrayBuffer \<Rightarrow> nat \<Rightarrow> nat \<Rightarrow> ArrayBuffer option" where
  "setUint16 view byteOffset v =
     (let u = v mod 65536
      in if byteOffset + 2 \<le> length view
         then Some (view[byteOffset := u mod 256, byteOffset + 1 := u div 256])
         else None)"

definition setUint32 :: "ArrayBuffer \<Rightarrow> nat \<Rightarrow> nat \<Rightarrow> ArrayBuffer option" where
  "setUint32 view byteOffset v =
     (let u = v mod 4294967296
      in if byteOffset + 4 \<le> length view
         then Some (view[byteOffset := u mod 256,
                         byteOffset + 1 := u div 256 mod 256,
                         byteOffset + 2 := u div 65536 mod 256,
                         byteOffset + 3 := u div 16777216])
         else None)"

text \<open>\<open>ToInt16\<close> of ECMAScript on a finite number: truncate towards zero, reduce modulo
  \<open>2^16\<close>, read as two's complement.\<close>

definition js_truncate :: "real \<Rightarrow> int" where
  "js_truncate v = (if v < 0 then - \<lfloor>- v\<rfloor> else \<lfloor>v\<rfloor>)"

definition ToInt16 :: "real \<Rightarrow> int" where
  "ToInt16 v =
     (let int16bit = js_truncate v mod 65536
      in if int16bit \<ge> 32768 then int16bit - 65536 else int16bit)"

definition setInt16 :: "ArrayBuffer \<Rightarrow> nat \<Rightarrow> real \<Rightarrow> ArrayBuffer option" where
  "setInt16 view byteOffset v =
     (let u = nat (ToInt16 v mod 65536)
      in if byteOffset + 2 \<le> length view
         then Some (view[byteOffset := u mod 256, byteOffset + 1 := u div 256])
         else None)"

text \<open>\<open>writeString\<close> (lines 606-610).\<close>

fun writeString :: "ArrayBuffer \<Rightarrow> nat \<Rightarrow> string \<Rightarrow> ArrayBuffer option" where
  "writeString view offset [] = Some view"
| "writeString view offset (c # cs) =
     do { view' \<leftarrow> setUint8 view offset (of_char c); writeString view' (offset + 1) cs }"

text \<open>The sample loop of \<open>float32ToWav\<close>, from index \<open>i\<close> on.\<close>

definition sampleToInt16Value :: "real \<Rightarrow> real" where
  "sampleToInt16Value x =
     (let sample = max (- 1) (min 1 x)
      in if sample < 0 then sample * 32768 else sample * 32767)"

fun writeSamples :: "ArrayBuffer \<Rightarrow> nat \<Rightarrow> Float32Array \<Rightarrow> ArrayBuffer option" where
  "writeSamples view i [] = Some view"
| "writeSamples view i (x # xs) =
     do { view' \<leftarrow> setInt16 view (44 + i * 2) (sampleToInt16Value x);
          writeSamples view' (i + 1) xs }"

text \<open>\<open>float32ToWav\<close> (lines 557-601), write by write.\<close>

definition float32ToWav :: "Float32Array \<Rightarrow> nat \<Rightarrow> ArrayBuffer option" where
  "float32ToWav buffer rate =
     (let numChannels = 1;
          bytesPerSample = 2;
          dataSize = length buffer * bytesPerSample;
          headerSize = 44;
          totalSize = headerSize + dataSize;
          wavView = replicate totalSize 0
      in do {
           v \<leftarrow> writeString wavView 0 ''RIFF'';
           v \<leftarrow> setUint32 v 4 (totalSize - 8);
           v \<leftarrow> writeString v 8 ''WAVE'';
           v \<leftarrow> writeString v 12 ''fmt '';
           v \<leftarrow> setUint32 v 16 16;
           v \<leftarrow> setUint16 v 20 1;
           v \<leftarrow> setUint16 v 22 numChannels;
           v \<leftarrow> setUint32 v 24 rate;
           v \<leftarrow> setUint32 v 28 (rate * numChannels * bytesPerSample);
           v \<leftarrow> setUint16 v 32 (numChannels * bytesPerSample);
           v \<leftarrow> setUint16 v 34 (bytesPerSample * 8);
           v \<leftarrow> writeString v 36 ''data'';
           v \<leftarrow> setUint32 v 40 dataSize;
           writeSamples v 0 buffer
         })"

text \<open>Reading a field back, as \<open>DataView.getUint32(o, true)\<close> and
  \<open>DataView.getInt16(o, true)\<close> do.\<close>

definition getUint32 :: "ArrayBuffer \<Rightarrow> nat \<Rightarrow> nat" where
  "getUint32 view byteOffset =
     view ! byteOffset + 256 * view ! (byteOffset + 1)
       + 65536 * view ! (byteOffset + 2) + 16777216 * view ! (byteOffset + 3)"

definition getInt16 :: "ArrayBuffer \<Rightarrow> nat \<Rightarrow> int" where
  "getInt16 view byteOffset =
     (let u = int (view ! byteOffset) + 256 * int (view ! (byteOffset + 1))
      in if u \<ge> 32768 then u - 65536 else u)"

subsection \<open>Sending an utterance\<close>

text \<open>\<open>combinedBuffer.set(buffer, offset)\<close>: \<open>RangeError\<close> when the source does not
  fit.\<close>

definition typedArraySet :: "Float32Array \<Rightarrow> Float32Array \<Rightarrow> nat \<Rightarrow> Float32Array option" where
  "typedArraySet target source offset =
     (if offset + length source \<le> length target
      then Some (take offset target @ source @ drop (offset + length source) target)
      else None)"

fun copyBuffers :: "Float32Array \<Rightarrow> nat \<Rightarrow> Float32Array list \<Rightarrow> Float32Array option" where
  "copyBuffers combinedBuffer offset [] = Some combinedBuffer"
| "copyBuffers combinedBuffer offset (buffer # rest) =
     do { c \<leftarrow> typedArraySet combinedBuffer buffer offset;
          copyBuffers c (offset + length buffer) rest }"

text \<open>\<open>(totalLength / sampleRate) * 1000\<close>: with \<open>sampleRate = 0\<close> the quotient is
  \<open>Infinity\<close> or \<open>NaN\<close>, and \<open>audioLengthMs < minRecordingLength\<close> is false.\<close>

definition audioLengthMs :: "nat \<Rightarrow> nat \<Rightarrow> real option" where
  "audioLengthMs totalLength rate =
     (if rate = 0 then None else Some ((real totalLength / real rate) * 1000))"

text \<open>The lines of \<open>sendAudioChunk\<close> that combine the accumulated frames and encode
  them. The result is never \<open>None\<close> (lemma \<open>encodeUtterance_returns\<close> below): the
  combined buffer has room for every frame and the data view for every write, so the
  \<open>None\<close> branch of \<open>sendAudioChunk\<close> is never taken.\<close>

definition encodeUtterance :: "Float32Array list \<Rightarrow> nat \<Rightarrow> ArrayBuffer option" where
  "encodeUtterance buffers rate =
     (let totalLength = foldl (\<lambda>acc buffer. acc + length buffer) 0 buffers
      in do { combinedBuffer \<leftarrow> copyBuffers (replicate totalLength 0) 0 buffers;
              float32ToWav combinedBuffer rate })"

text \<open>\<open>sendAudioChunk\<close> (lines 615-658).\<close>

definition sendAudioChunk :: "AudioService \<Rightarrow> AudioService" where
  "sendAudioChunk s =
     (if length (audioBuffer s) = 0 then s
      else if isProcessing s then s\<lparr>audioBuffer := []\<rparr>
      else
        let totalLength = foldl (\<lambda>acc buffer. acc + length buffer) 0 (audioBuffer s)
        in if \<not> isVoiceDetected s
               \<and> js_lt (audioLengthMs totalLength (sampleRate s)) (minRecordingLength s)
           then s\<lparr>audioBuffer := []\<rparr>
           else
             (case encodeUtterance (audioBuffer s) (sampleRate s) of
                None \<Rightarrow> s
              | Some wavBuffer \<Rightarrow> (emit (WsSendAudio wavBuffer) s)\<lparr>audioBuffer := []\<rparr>))"

text \<open>\<open>stopRecording\<close> (lines 399-445). The script processor, the stream source and the microphone
  tracks it disconnects or mutes are not part of the model.\<close>

definition stopRecording :: "AudioService \<Rightarrow> AudioService" where
  "stopRecording s =
     (if audioState s \<noteq> RECORDING then s
      else
        let s1 = sendAudioChunk s;
            s2 = s1\<lparr>audioState := INACTIVE, audioBuffer := []\<rparr>
        in dispatchEvent s2 RECORDING_STOP NoData)"

subsection \<open>Playback queue\<close>

text \<open>\<open>stopPlayback\<close> (lines 902-943). \<open>stop\<close> is called inside \<open>try\<close>; when it
  throws, \<open>currentSource\<close> is not reset and the method goes on.\<close>

definition stopPlayback :: "bool \<Rightarrow> AudioService \<Rightarrow> AudioService" where
  "stopPlayback stopThrows s =
     (case currentSource s of
        None \<Rightarrow> s
      | Some source \<Rightarrow>
          let previousState = audioState s;
              s1 = clearPlaybackTimeout s;
              s2 = emit (SourceStop source) s1;
              s3 = (if stopThrows then s2 else s2\<lparr>currentSource := None\<rparr>);
              s4 = s3\<lparr>audioQueue := []\<rparr>;
              s5 = (if previousState = SPEAKING
                    then s4\<lparr>audioState := INTERRUPTED\<rparr>
                    else s4\<lparr>audioState := INACTIVE\<rparr>);
              s6 = s5\<lparr>isPlaying := False, isSpeaking := False\<rparr>
          in dispatchEvent s6 PLAYBACK_STOP
               (StopInfo (previousState = SPEAKING) previousState))"

text \<open>\<open>playNextChunk\<close> (lines 731-850). In the \<open>catch\<close> branch it calls itself on the rest of the
  queue, so it is a recursive function; the queue gets shorter.\<close>

function playNextChunk :: "(AudioBuffer \<Rightarrow> bool) \<Rightarrow> AudioService \<Rightarrow> AudioService" where
  "playNextChunk startThrows s =
     (let s1 = clearPlaybackTimeout s
      in case audioQueue s1 of
           [] \<Rightarrow>
             dispatchEvent
               (s1\<lparr>isPlaying := False, isSpeaking := False, audioState := INACTIVE\<rparr>)
               PLAYBACK_END (EndInfo SPEAKING False False)
         | buffer # rest \<Rightarrow>
             if \<not> audioContext s1 then s1
             else
               let wasPlaying = isPlaying s1;
                   s2 = s1\<lparr>audioQueue := rest, isPlaying := True, isSpeaking := True,
                           audioState := SPEAKING, currentSource := Some buffer\<rparr>;
                   timeoutDuration = (duration buffer * 1000) + 1000
               in if startThrows buffer then
                    (let s3 = (clearPlaybackTimeout (dispatchEvent s2 AUDIO_ERROR ErrorInfo))
                                \<lparr>currentSource := None\<rparr>
                     in if length (audioQueue s3) > 0 then playNextChunk startThrows s3
                        else dispatchEvent
                               (s3\<lparr>isPlaying := False, isSpeaking := False,
                                   audioState := INACTIVE\<rparr>)
                               PLAYBACK_END (EndInfo SPEAKING True False))
                  else
                    (let s3 = armPlaybackTimeout timeoutDuration (emit (SourceStart buffer) s2)
                     in if \<not> wasPlaying then dispatchEvent s3 PLAYBACK_START NoData else s3))"
  by pat_completeness auto
termination
  by (relation "measure (\<lambda>(startThrows, s). length (audioQueue s))")
     (auto simp: clearPlaybackTimeout_def dispatchEvent_def emit_def split: option.splits)

declare playNextChunk.simps [simp del]

text \<open>The handler that \<open>playNextChunk\<close> installs as \<open>source.onended\<close>
  (lines 771-794). It reads the fields of the service only.\<close>

definition onended :: "(AudioBuffer \<Rightarrow> bool) \<Rightarrow> AudioService \<Rightarrow> AudioService" where
  "onended startThrows s =
     (let s1 = clearPlaybackTimeout s
      in if length (audioQueue s1) > 0 then playNextChunk startThrows s1
         else dispatchEvent
                (s1\<lparr>isPlaying := False, isSpeaking := False, audioState := INACTIVE,
                    currentSource := None\<rparr>)
                PLAYBACK_END (EndInfo SPEAKING False False))"

text \<open>The handler that \<open>playNextChunk\<close> passes to \<open>window.setTimeout\<close>
  (lines 805-819).\<close>

definition playbackTimeout :: "(AudioBuffer \<Rightarrow> bool) \<Rightarrow> AudioService \<Rightarrow> AudioService" where
  "playbackTimeout startThrows s =
     (let s1 = s\<lparr>currentSource := None\<rparr>
      in if length (audioQueue s1) > 0 then playNextChunk startThrows s1
         else dispatchEvent
                (s1\<lparr>isPlaying := False, isSpeaking := False, audioState := INACTIVE\<rparr>)
                PLAYBACK_END (EndInfo SPEAKING False True))"

text \<open>\<open>playAudioChunk\<close> (lines 669-726) awaits the audio context, converts the
  base64 text and awaits the decoder; what it does next depends on how they answer.
  \<^item> \<open>ContextFailed\<close>: \<open>initAudioContext\<close> (lines 124-164) throws. It does so only
    where no context could be created: the field is null, it has dispatched
    \<open>AUDIO_ERROR\<close> itself (line 140), and the outer \<open>catch\<close> of \<open>playAudioChunk\<close>
    dispatches \<open>AUDIO_ERROR\<close> again (line 724).
  \<^item> \<open>Base64Failed\<close>: the context is there and \<open>base64ToArrayBuffer\<close> throws; the
    outer \<open>catch\<close> dispatches \<open>AUDIO_ERROR\<close> once.
  \<^item> \<open>DecodeFailed\<close>: \<open>decodeAudioData\<close> rejects (the inner \<open>catch\<close>).
  \<^item> \<open>Decoded\<close>: the decoded buffer is pushed.\<close>

datatype chunk = ContextFailed | Base64Failed | DecodeFailed | Decoded AudioBuffer

definition playAudioChunk :: "(AudioBuffer \<Rightarrow> bool) \<Rightarrow> AudioService \<Rightarrow> chunk \<Rightarrow> AudioService" where
  "playAudioChunk startThrows s c =
     (case c of
        ContextFailed \<Rightarrow>
          dispatchEvent
            (dispatchEvent (s\<lparr>audioContext := False\<rparr>) AUDIO_ERROR ErrorInfo)
            AUDIO_ERROR ErrorInfo
      | Base64Failed \<Rightarrow> dispatchEvent (s\<lparr>audioContext := True\<rparr>) AUDIO_ERROR ErrorInfo
      | DecodeFailed \<Rightarrow>
          (let s1 = dispatchEvent (s\<lparr>audioContext := True\<rparr>) AUDIO_ERROR ErrorInfo
           in if length (audioQueue s1) = 0
              then dispatchEvent
                     (s1\<lparr>isPlaying := False, isSpeaking := False, audioState := INACTIVE\<rparr>)
                     PLAYBACK_END (EndInfo SPEAKING True False)
              else s1)
      | Decoded audioBuffer' \<Rightarrow>
          (let s1 = s\<lparr>audioContext := True, audioQueue := audioQueue s @ [audioBuffer']\<rparr>
           in if \<not> isPlaying s1 then playNextChunk startThrows s1 else s1))"

subsection \<open>The capture callback\<close>

text \<open>The condition \<open>this.isProcessing || this.isVisionProcessing || this.isGreeting\<close>,
  which \<open>handleAudioProcess\<close> (lines 462-552) tests twice.\<close>

definition protected :: "AudioService \<Rightarrow> bool" where
  "protected s = (isProcessing s \<or> isVisionProcessing s \<or> isGreeting s)"

definition handleAudioProcess :: "bool \<Rightarrow> AudioService \<Rightarrow> AudioProcessingEvent \<Rightarrow> AudioService" where
  "handleAudioProcess stopThrows s event =
     (let bufferCopy = inputData event;
          energy = calculateRMSEnergy bufferCopy
      in if js_gt energy (voiceThreshold s) \<and> protected s then
           dispatchEvent s RECORDING_DATA (RecordingData bufferCopy energy False)
         else
           let s1 = (if js_gt energy (voiceThreshold s) then
                       (let sa = (if \<not> isVoiceDetected s then
                                    (let sv = s\<lparr>isVoiceDetected := True\<rparr>
                                     in if (isSpeaking sv \<or> audioState sv = SPEAKING)
                                           \<and> \<not> isGreeting sv
                                        then dispatchEvent
                                               (emit WsInterrupt (stopPlayback stopThrows sv))
                                               PLAYBACK_STOP UserInterrupt
                                        else sv)
                                  else s)
                        in sa\<lparr>lastVoiceTime := dateNow1 event\<rparr>)
                     else s)
           in if protected s1 then
                dispatchEvent s1 RECORDING_DATA (RecordingData bufferCopy energy False)
              else
                let s2 = (if isVoiceDetected s1 then
                            (let sb = s1\<lparr>audioBuffer := audioBuffer s1 @ [bufferCopy]\<rparr>;
                                 timeSinceVoice = dateNow2 event - lastVoiceTime sb
                             in if js_le energy (voiceThreshold sb)
                                   \<and> timeSinceVoice > silenceTimeout sb
                                then sendAudioChunk (sb\<lparr>isVoiceDetected := False\<rparr>)
                                else sb)
                          else s1)
                in dispatchEvent s2 RECORDING_DATA
                     (RecordingData bufferCopy energy (isVoiceDetected s2)))"

subsection \<open>Session manager: the save result handler\<close>

record SaveSessionResult =
  success :: bool
  session_id :: "string option"

record SessionManager =
  currentSessionId :: "string option"
  currentSessionIdRef :: "string option"
  lastRefreshAt :: int
  loading :: bool
  error :: "string option"
  listSessionsSent :: nat

text \<open>\<open>fetchSessions\<close>: \<open>setLoading(true)\<close> and one \<open>websocketService.listSessions()\<close>,
  counted in \<open>listSessionsSent\<close>.\<close>

definition fetchSessions :: "SessionManager \<Rightarrow> SessionManager" where
  "fetchSessions m = m\<lparr>loading := True, listSessionsSent := Suc (listSessionsSent m)\<rparr>"

text \<open>\<open>handleSaveSessionResult\<close> of the component \<open>SessionManager\<close>. The third
  argument is the value of \<open>Date.now()\<close>. An empty \<open>session_id\<close> is falsy, as an
  absent one.\<close>

definition handleSaveSessionResult :: "SessionManager \<Rightarrow> SaveSessionResult \<Rightarrow> int \<Rightarrow> SessionManager" where
  "handleSaveSessionResult m data now =
     (if success data then
        (let m1 = (case session_id data of
                     None \<Rightarrow> m
                   | Some sid \<Rightarrow>
                       if sid = [] then m
                       else m\<lparr>currentSessionId := Some sid, currentSessionIdRef := Some sid\<rparr>)
         in if now - lastRefreshAt m1 > 2000
            then fetchSessions (m1\<lparr>lastRefreshAt := now\<rparr>)
            else m1)
      else m\<lparr>error := Some ''Failed to save session''\<rparr>)"

subsection \<open>Runs\<close>

text \<open>A sequence of capture callbacks.\<close>

definition processFrames :: "bool \<Rightarrow> AudioService \<Rightarrow> AudioProcessingEvent list \<Rightarrow> AudioService" where
  "processFrames stopThrows s events = foldl (handleAudioProcess stopThrows) s events"

text \<open>What the platform can deliver to the playback queue.\<close>

datatype playback_input = Enqueue AudioBuffer | Ended | TimedOut

fun playbackStep :: "(AudioBuffer \<Rightarrow> bool) \<Rightarrow> AudioService \<Rightarrow> playback_input \<Rightarrow> AudioService" where
  "playbackStep startThrows s (Enqueue b) = playAudioChunk startThrows s (Decoded b)"
| "playbackStep startThrows s Ended = onended startThrows s"
| "playbackStep startThrows s TimedOut = playbackTimeout startThrows s"

definition playbackRun :: "(AudioBuffer \<Rightarrow> bool) \<Rightarrow> AudioService \<Rightarrow> playback_input list \<Rightarrow> AudioService" where
  "playbackRun startThrows s inputs = foldl (playbackStep startThrows) s inputs"

text \<open>The times at which a sequence of save results, each with its \<open>Date.now()\<close>,
  makes the handler ask for the list of sessions.\<close>

fun refreshTimes :: "SessionManager \<Rightarrow> (SaveSessionResult \<times> int) list \<Rightarrow> int list" where
  "refreshTimes m [] = []"
| "refreshTimes m ((data, now) # rest) =
     (let m' = handleSaveSessionResult m data now
      in (if listSessionsSent m' > listSessionsSent m then [now] else [])
           @ refreshTimes m' rest)"

text \<open>Projections of the effect list.\<close>

definition interruptsSent :: "AudioService \<Rightarrow> nat" where
  "interruptsSent s = length (filter (\<lambda>e. e = WsInterrupt) (effects s))"

fun isWsSendAudio :: "effect \<Rightarrow> bool" where
  "isWsSendAudio (WsSendAudio w) = True"
| "isWsSendAudio e = False"

definition utterancesSent :: "AudioService \<Rightarrow> effect list" where
  "utterancesSent s = filter isWsSendAudio (effects s)"

fun startedBuffer :: "effect \<Rightarrow> AudioBuffer list" where
  "startedBuffer (SourceStart b) = [b]"
| "startedBuffer e = []"

definition played :: "AudioService \<Rightarrow> AudioBuffer list" where
  "played s = concat (map startedBuffer (effects s))"

fun dispatched :: "AudioEvent \<Rightarrow> effect \<Rightarrow> bool" where
  "dispatched ev (Dispatch ev' d) = (ev = ev')"
| "dispatched ev e = False"

definition eventCount :: "AudioEvent \<Rightarrow> AudioService \<Rightarrow> nat" where
  "eventCount ev s = length (filter (dispatched ev) (effects s))"

subsection \<open>The encoding in closed form\<close>

text \<open>The bytes that \<open>float32ToWav\<close> is shown to produce: the 44 bytes of the header,
  then two bytes for every sample.\<close>

definition le16 :: "nat \<Rightarrow> nat list" where
  "le16 u = [u mod 256, u div 256]"

definition le32 :: "nat \<Rightarrow> nat list" where
  "le32 u = [u mod 256, u div 256 mod 256, u div 65536 mod 256, u div 16777216]"

definition wavHeader :: "nat \<Rightarrow> nat \<Rightarrow> nat list" where
  "wavHeader n rate =
     map of_char ''RIFF'' @ le32 ((36 + n * 2) mod 4294967296)
       @ map of_char ''WAVE''
       @ map of_char ''fmt '' @ le32 16 @ le16 1 @ le16 1
       @ le32 (rate mod 4294967296) @ le32 (rate * 2 mod 4294967296) @ le16 2 @ le16 16
       @ map of_char ''data'' @ le32 (n * 2 mod 4294967296)"

definition encodeSample :: "real \<Rightarrow> nat list" where
  "encodeSample x = le16 (nat (ToInt16 (sampleToInt16Value x) mod 65536))"

subsection \<open>The cases of \<open>playNextChunk\<close>\<close>

text \<open>What \<open>clearTimeout\<close> adds to the effects when a timer is pending.\<close>

definition clearing :: "AudioService \<Rightarrow> effect list" where
  "clearing s = (case playbackTimeoutId s of None \<Rightarrow> [] | Some h \<Rightarrow> [ClearTimeout h])"

text \<open>The state after a buffer was started.\<close>

definition started :: "AudioService \<Rightarrow> AudioBuffer \<Rightarrow> AudioBuffer list \<Rightarrow> AudioService" where
  "started s b q =
     (let s3 = armPlaybackTimeout (duration b * 1000 + 1000)
                 (emit (SourceStart b)
                    ((clearPlaybackTimeout s)
                       \<lparr>audioQueue := q, isPlaying := True, isSpeaking := True,
                        audioState := SPEAKING, currentSource := Some b\<rparr>))
      in if \<not> isPlaying s then dispatchEvent s3 PLAYBACK_START NoData else s3)"

text \<open>The state after \<open>start\<close> threw.\<close>

definition skipped :: "AudioService \<Rightarrow> AudioBuffer \<Rightarrow> AudioBuffer list \<Rightarrow> AudioService" where
  "skipped s b q =
     (dispatchEvent
        ((clearPlaybackTimeout s)
           \<lparr>audioQueue := q, isPlaying := True, isSpeaking := True,
            audioState := SPEAKING, currentSource := Some b\<rparr>)
        AUDIO_ERROR ErrorInfo)\<lparr>currentSource := None\<rparr>"

subsection \<open>One batch of buffers\<close>

text \<open>The buffers that a sequence of inputs enqueues, in order.\<close>

fun enqueuedBuffer :: "playback_input \<Rightarrow> AudioBuffer list" where
  "enqueuedBuffer (Enqueue b) = [b]"
| "enqueuedBuffer i = []"

definition enqueued :: "playback_input list \<Rightarrow> AudioBuffer list" where
  "enqueued inputs = concat (map enqueuedBuffer inputs)"

text \<open>One batch, as a condition on the inputs alone. \<open>pending\<close> counts the buffers
  that have arrived and whose completion has not: a sequence of enqueues and
  completions (no timer expiry) is one batch when some buffer is pending before each
  input, so that every chunk arrives before the earlier ones have all completed and
  every completion is that of a buffer that has arrived, and none is pending after the
  last input.\<close>

fun oneBatch :: "nat \<Rightarrow> playback_input list \<Rightarrow> bool" where
  "oneBatch pending [] = (pending = 0)"
| "oneBatch pending (Enqueue b # rest) = (pending > 0 \<and> oneBatch (Suc pending) rest)"
| "oneBatch pending (Ended # rest) = (pending > 0 \<and> oneBatch (pending - 1) rest)"
| "oneBatch pending (TimedOut # rest) = False"

subsection \<open>The service as constructed\<close>

text \<open>The field initialisers of the class, with \<open>DEFAULT_CONFIG\<close>.\<close>

definition initialService :: AudioService where
  "initialService =
     \<lparr>sampleRate = 44100, audioContext = False, audioBuffer = [], audioState = INACTIVE,
      audioQueue = [], isPlaying = False, isSpeaking = False, currentSource = None,
      playbackTimeoutId = None, isProcessing = False, isGreeting = False,
      isVisionProcessing = False, isVoiceDetected = False, voiceThreshold = 1 / 100,
      silenceTimeout = 1000, lastVoiceTime = 0, minRecordingLength = 1000,
      nextTimeoutHandle = 1, effects = []\<rparr>"

subsection \<open>Example inputs\<close>

text \<open>Three decoded buffers, a queue in the middle of a reply, a loud and a quiet frame.\<close>

definition buffer1 :: AudioBuffer where
  "buffer1 = \<lparr>duration = 1, channelData = [0]\<rparr>"

definition buffer2 :: AudioBuffer where
  "buffer2 = \<lparr>duration = 2, channelData = [0, 0]\<rparr>"

definition buffer3 :: AudioBuffer where
  "buffer3 = \<lparr>duration = 3, channelData = [0, 0, 0]\<rparr>"

definition speakingService :: AudioService where
  "speakingService =
     initialService\<lparr>audioContext := True, isPlaying := True, isSpeaking := True,
       audioState := SPEAKING, currentSource := Some buffer1, audioQueue := [buffer2],
       playbackTimeoutId := Some 1, nextTimeoutHandle := 2\<rparr>"

definition loudFrame :: AudioProcessingEvent where
  "loudFrame = \<lparr>inputData = [1], dateNow1 = 5000, dateNow2 = 5000\<rparr>"

definition quietFrame :: AudioProcessingEvent where
  "quietFrame = \<lparr>inputData = [0, 0], dateNow1 = 7000, dateNow2 = 7000\<rparr>"

section \<open>Properties\<close>

subsection \<open>Auxiliary facts\<close>

lemma dispatchEvent_fields [simp]:
  "audioBuffer (dispatchEvent s ev d) = audioBuffer s"
  "audioQueue (dispatchEvent s ev d) = audioQueue s"
  "audioState (dispatchEvent s ev d) = audioState s"
  "audioContext (dispatchEvent s ev d) = audioContext s"
  "isPlaying (dispatchEvent s ev d) = isPlaying s"
  "isSpeaking (dispatchEvent s ev d) = isSpeaking s"
  "currentSource (dispatchEvent s ev d) = currentSource s"
  "playbackTimeoutId (dispatchEvent s ev d) = playbackTimeoutId s"
  "isVoiceDetected (dispatchEvent s ev d) = isVoiceDetected s"
  "voiceThreshold (dispatchEvent s ev d) = voiceThreshold s"
  "protected (dispatchEvent s ev d) = protected s"
  "effects (dispatchEvent s ev d) = effects s @ [Dispatch ev d]"
  by (simp_all add: dispatchEvent_def protected_def)

lemma utterancesSent_dispatchEvent [simp]:
  "utterancesSent (dispatchEvent s ev d) = utterancesSent s"
  by (simp add: utterancesSent_def)

lemma interruptsSent_dispatchEvent [simp]:
  "interruptsSent (dispatchEvent s ev d) = interruptsSent s"
  by (simp add: interruptsSent_def)

lemma foldl_length_acc:
  "foldl (\<lambda>acc buffer. acc + length buffer) n bs = n + length (concat bs)"
  by (induction bs arbitrary: n) auto

lemma totalLength_concat:
  "foldl (\<lambda>acc buffer. acc + length buffer) 0 bs = length (concat bs)"
  by (simp add: foldl_length_acc)

lemma sendAudioChunk_empty: "audioBuffer s = [] \<Longrightarrow> sendAudioChunk s = s"
  by (simp add: sendAudioChunk_def)

subsection \<open>Protected states\<close>

text \<open>
  C3. While \<open>isProcessing\<close>, \<open>isVisionProcessing\<close> or \<open>isGreeting\<close> is set, the
  capture callback does one thing only: it dispatches \<open>RECORDING_DATA\<close> for the frame
  with \<open>isVoice\<close> false. The frame is not appended to the accumulation buffer, no
  interrupt is sent and no utterance is sent.
\<close>

theorem protected_frame_only_visualised:
  assumes "protected s"
  shows "handleAudioProcess stopThrows s event =
           dispatchEvent s RECORDING_DATA
             (RecordingData (inputData event) (calculateRMSEnergy (inputData event)) False)
         \<and> audioBuffer (handleAudioProcess stopThrows s event) = audioBuffer s
         \<and> interruptsSent (handleAudioProcess stopThrows s event) = interruptsSent s
         \<and> utterancesSent (handleAudioProcess stopThrows s event) = utterancesSent s
         \<and> effects (handleAudioProcess stopThrows s event) =
             effects s @ [Dispatch RECORDING_DATA
               (RecordingData (inputData event) (calculateRMSEnergy (inputData event)) False)]"
proof -
  have "handleAudioProcess stopThrows s event =
           dispatchEvent s RECORDING_DATA
             (RecordingData (inputData event) (calculateRMSEnergy (inputData event)) False)"
  proof (cases "js_gt (calculateRMSEnergy (inputData event)) (voiceThreshold s)")
    case True
    with assms show ?thesis unfolding handleAudioProcess_def Let_def by simp
  next
    case False
    with assms show ?thesis unfolding handleAudioProcess_def Let_def by simp
  qed
  then show ?thesis by simp
qed

subsection \<open>Silence\<close>

lemma silent_frame:
  assumes "\<not> isVoiceDetected s"
    and "\<not> js_gt (calculateRMSEnergy (inputData event)) (voiceThreshold s)"
  shows "handleAudioProcess stopThrows s event =
           dispatchEvent s RECORDING_DATA
             (RecordingData (inputData event) (calculateRMSEnergy (inputData event)) False)"
  using assms unfolding handleAudioProcess_def Let_def by simp

lemma silent_frames:
  assumes "\<not> isVoiceDetected s" and "audioBuffer s = []"
    and "\<forall>e \<in> set events. \<not> js_gt (calculateRMSEnergy (inputData e)) (voiceThreshold s)"
  shows "\<not> isVoiceDetected (processFrames stopThrows s events)
         \<and> audioBuffer (processFrames stopThrows s events) = []
         \<and> voiceThreshold (processFrames stopThrows s events) = voiceThreshold s
         \<and> utterancesSent (processFrames stopThrows s events) = utterancesSent s"
  using assms
proof (induction events arbitrary: s)
  case Nil
  then show ?case by (simp add: processFrames_def)
next
  case (Cons e es)
  let ?s' = "handleAudioProcess stopThrows s e"
  have step: "?s' = dispatchEvent s RECORDING_DATA
             (RecordingData (inputData e) (calculateRMSEnergy (inputData e)) False)"
    using Cons.prems by (simp add: silent_frame)
  have "\<not> isVoiceDetected ?s'" "audioBuffer ?s' = []"
    "\<forall>e \<in> set es. \<not> js_gt (calculateRMSEnergy (inputData e)) (voiceThreshold ?s')"
    using Cons.prems by (simp_all add: step)
  from Cons.IH[OF this] show ?case
    by (simp add: processFrames_def step)
qed

text \<open>
  C6. Recording starts with the voice flag down and the accumulation buffer empty. If no
  frame of a sequence has an energy above \<open>voiceThreshold\<close>, then after every prefix of
  the sequence the flag is still down, the buffer is still empty and no utterance has
  been sent; \<open>stopRecording\<close> at the end sends none either.
\<close>

theorem silence_emits_no_utterance:
  assumes "\<not> isVoiceDetected s" and "audioBuffer s = []"
    and "\<forall>e \<in> set events. \<not> js_gt (calculateRMSEnergy (inputData e)) (voiceThreshold s)"
  shows "(\<forall>n. \<not> isVoiceDetected (processFrames stopThrows s (take n events))
            \<and> audioBuffer (processFrames stopThrows s (take n events)) = []
            \<and> utterancesSent (processFrames stopThrows s (take n events)) = utterancesSent s)
         \<and> utterancesSent (stopRecording (processFrames stopThrows s events)) = utterancesSent s"
proof -
  have pre: "\<forall>e \<in> set (take n events).
               \<not> js_gt (calculateRMSEnergy (inputData e)) (voiceThreshold s)" for n
    using assms(3) by (meson in_set_takeD)
  have a: "\<forall>n. \<not> isVoiceDetected (processFrames stopThrows s (take n events))
            \<and> audioBuffer (processFrames stopThrows s (take n events)) = []
            \<and> utterancesSent (processFrames stopThrows s (take n events)) = utterancesSent s"
    using silent_frames[OF assms(1,2) pre] by blast
  let ?t = "processFrames stopThrows s events"
  have t: "audioBuffer ?t = []" "utterancesSent ?t = utterancesSent s"
    using silent_frames[OF assms] by simp_all
  have "utterancesSent (stopRecording ?t) = utterancesSent s"
    using t by (simp add: stopRecording_def Let_def sendAudioChunk_empty
        utterancesSent_def dispatchEvent_def)
  with a show ?thesis by blast
qed

subsection \<open>Segments that are too short\<close>

text \<open>
  C8. When \<open>sendAudioChunk\<close> finalizes a segment whose duration in milliseconds is
  below \<open>minRecordingLength\<close> while the voice flag is down, the only thing it does is
  to empty the accumulation buffer: nothing is sent and no event (so no error event)
  is dispatched.
\<close>

theorem short_segment_discarded:
  assumes "\<not> isVoiceDetected s"
    and "js_lt (audioLengthMs (length (concat (audioBuffer s))) (sampleRate s))
           (minRecordingLength s)"
  shows "sendAudioChunk s = s\<lparr>audioBuffer := []\<rparr>
         \<and> audioBuffer (sendAudioChunk s) = []
         \<and> effects (sendAudioChunk s) = effects s"
proof -
  have "sendAudioChunk s = s\<lparr>audioBuffer := []\<rparr>"
  proof (cases "audioBuffer s = []")
    case True
    then have "s\<lparr>audioBuffer := []\<rparr> = s" by (cases s) simp
    with True show ?thesis by (simp add: sendAudioChunk_def)
  next
    case False
    with assms show ?thesis
      by (simp add: sendAudioChunk_def Let_def totalLength_concat)
  qed
  then show ?thesis by simp
qed

subsection \<open>Throttled refresh of the session list\<close>

lemma handleSave_refresh:
  "listSessionsSent (handleSaveSessionResult m d now) > listSessionsSent m
     \<longleftrightarrow> success d \<and> now - lastRefreshAt m > 2000"
  by (simp add: handleSaveSessionResult_def fetchSessions_def Let_def split: option.splits)

lemma handleSave_lastRefreshAt:
  "lastRefreshAt (handleSaveSessionResult m d now) =
     (if success d \<and> now - lastRefreshAt m > 2000 then now else lastRefreshAt m)"
  by (simp add: handleSaveSessionResult_def fetchSessions_def Let_def split: option.splits)

lemma refreshTimes_spaced:
  "(\<forall>t \<in> set (refreshTimes m msgs). t - lastRefreshAt m > 2000)
   \<and> sorted_wrt (\<lambda>a b. b - a > 2000) (refreshTimes m msgs)"
proof (induction msgs arbitrary: m)
  case Nil
  then show ?case by simp
next
  case (Cons x msgs)
  obtain d now where x: "x = (d, now)" by (cases x)
  let ?m' = "handleSaveSessionResult m d now"
  note ih = Cons.IH[of ?m']
  show ?case
  proof (cases "success d \<and> now - lastRefreshAt m > 2000")
    case True
    then have l: "lastRefreshAt ?m' = now" by (simp add: handleSave_lastRefreshAt)
    have r: "refreshTimes m (x # msgs) = now # refreshTimes ?m' msgs"
      using True by (simp add: x handleSave_refresh Let_def)
    show ?thesis using ih True unfolding r l by fastforce
  next
    case False
    then have l: "lastRefreshAt ?m' = lastRefreshAt m" by (simp add: handleSave_lastRefreshAt)
    have r: "refreshTimes m (x # msgs) = refreshTimes ?m' msgs"
      using False by (simp add: x handleSave_refresh Let_def)
    show ?thesis using ih unfolding r l by simp
  qed
qed

lemma spaced_window:
  "sorted_wrt (\<lambda>a b. b - a > 2000) ts
     \<Longrightarrow> length (filter (\<lambda>t. w \<le> t \<and> t \<le> w + 2000) ts) \<le> 1" for w :: int
proof (induction ts)
  case Nil
  then show ?case by simp
next
  case (Cons a ts)
  show ?case
  proof (cases "w \<le> a \<and> a \<le> w + 2000")
    case True
    have "\<forall>b \<in> set ts. \<not> (w \<le> b \<and> b \<le> w + 2000)"
      using Cons.prems True by auto
    then have "filter (\<lambda>t. w \<le> t \<and> t \<le> w + 2000) ts = []"
      by (simp add: filter_empty_conv)
    with True show ?thesis by simp
  next
    case False
    with Cons show ?thesis by auto
  qed
qed

text \<open>
  C9. A successful \<open>save_session_result\<close> asks for the list of sessions exactly when
  more than 2000 milliseconds separate \<open>Date.now()\<close> from the time of the last such
  refresh, which it then records. So, for every sequence of save results, any two of
  the refreshes they trigger are more than 2000 milliseconds apart, and no window of
  2000 milliseconds holds more than one of them.
\<close>

theorem refresh_throttled:
  "(listSessionsSent (handleSaveSessionResult m d now) =
      (if success d \<and> now - lastRefreshAt m > 2000
       then Suc (listSessionsSent m) else listSessionsSent m))
   \<and> lastRefreshAt (handleSaveSessionResult m d now) =
      (if success d \<and> now - lastRefreshAt m > 2000 then now else lastRefreshAt m)
   \<and> sorted_wrt (\<lambda>a b. b - a > 2000) (refreshTimes m msgs)
   \<and> length (filter (\<lambda>t. w \<le> t \<and> t \<le> w + 2000) (refreshTimes m msgs)) \<le> 1"
proof -
  have "sorted_wrt (\<lambda>a b. b - a > 2000) (refreshTimes m msgs)"
    using refreshTimes_spaced[of m msgs] by simp
  then show ?thesis
    using spaced_window[of "refreshTimes m msgs" w]
    by (simp add: handleSaveSessionResult_def fetchSessions_def Let_def split: option.splits)
qed

subsection \<open>Fields kept by the helpers\<close>

lemma js_gt_not_le: "js_gt a b \<Longrightarrow> \<not> js_le a b"
  by (auto simp: js_gt_def js_le_def split: option.splits)

lemma emit_fields [simp]:
  "audioBuffer (emit e s) = audioBuffer s"
  "audioQueue (emit e s) = audioQueue s"
  "audioState (emit e s) = audioState s"
  "audioContext (emit e s) = audioContext s"
  "isPlaying (emit e s) = isPlaying s"
  "isSpeaking (emit e s) = isSpeaking s"
  "currentSource (emit e s) = currentSource s"
  "playbackTimeoutId (emit e s) = playbackTimeoutId s"
  "isVoiceDetected (emit e s) = isVoiceDetected s"
  "voiceThreshold (emit e s) = voiceThreshold s"
  "protected (emit e s) = protected s"
  "effects (emit e s) = effects s @ [e]"
  by (simp_all add: emit_def protected_def)

lemma stopPlayback_capture_fields [simp]:
  "audioBuffer (stopPlayback st s) = audioBuffer s"
  "isVoiceDetected (stopPlayback st s) = isVoiceDetected s"
  "voiceThreshold (stopPlayback st s) = voiceThreshold s"
  "protected (stopPlayback st s) = protected s"
  by (simp_all add: stopPlayback_def Let_def clearPlaybackTimeout_def protected_def
      dispatchEvent_def emit_def split: option.splits)

lemma stopPlayback_voice_flag:
  "stopPlayback st (s\<lparr>isVoiceDetected := b\<rparr>) = (stopPlayback st s)\<lparr>isVoiceDetected := b\<rparr>"
  by (simp add: stopPlayback_def Let_def clearPlaybackTimeout_def
      dispatchEvent_def emit_def split: option.splits)

lemma stopPlayback_stops:
  assumes "currentSource s = Some src"
  shows "audioQueue (stopPlayback st s) = []"
    "\<not> isPlaying (stopPlayback st s)"
    "\<not> isSpeaking (stopPlayback st s)"
    "playbackTimeoutId (stopPlayback st s) = None"
    "SourceStop src \<in> set (drop (length (effects s)) (effects (stopPlayback st s)))"
  using assms
  by (simp_all add: stopPlayback_def Let_def clearPlaybackTimeout_def
      dispatchEvent_def emit_def split: option.splits)

lemma protected_update [simp]:
  "protected (s\<lparr>isVoiceDetected := b\<rparr>) = protected s"
  "protected (s\<lparr>lastVoiceTime := t\<rparr>) = protected s"
  "protected (s\<lparr>audioBuffer := bs\<rparr>) = protected s"
  "protected (s\<lparr>effects := es\<rparr>) = protected s"
  by (simp_all add: protected_def)


subsection \<open>Barge-in\<close>

lemma onset_frame:
  assumes "\<not> protected s"
    and "js_gt (calculateRMSEnergy (inputData f)) (voiceThreshold s)"
    and "\<not> isVoiceDetected s"
    and "isSpeaking s \<or> audioState s = SPEAKING"
  shows "handleAudioProcess st s f =
           dispatchEvent
             ((dispatchEvent (emit WsInterrupt (stopPlayback st s)) PLAYBACK_STOP UserInterrupt)
                \<lparr>isVoiceDetected := True, lastVoiceTime := dateNow1 f,
                 audioBuffer := audioBuffer s @ [inputData f]\<rparr>)
             RECORDING_DATA
             (RecordingData (inputData f) (calculateRMSEnergy (inputData f)) True)"
proof -
  have g: "\<not> isGreeting s" using assms(1) by (simp add: protected_def)
  have le: "\<not> js_le (calculateRMSEnergy (inputData f)) (voiceThreshold s)"
    using assms(2) by (rule js_gt_not_le)
  show ?thesis
    unfolding handleAudioProcess_def Let_def
    using assms g le
    by (simp add: stopPlayback_voice_flag) (simp add: dispatchEvent_def emit_def)
qed


lemma stopPlayback_effects:
  assumes "currentSource s = Some src"
  shows "effects (stopPlayback st s) =
           effects s @ (case playbackTimeoutId s of None \<Rightarrow> [] | Some h \<Rightarrow> [ClearTimeout h])
             @ [SourceStop src,
                Dispatch PLAYBACK_STOP (StopInfo (audioState s = SPEAKING) (audioState s))]"
  using assms
  by (simp add: stopPlayback_def Let_def clearPlaybackTimeout_def
      dispatchEvent_def emit_def split: option.splits)

lemma interruptsSent_stopPlayback [simp]:
  "interruptsSent (stopPlayback st s) = interruptsSent s"
  by (simp add: interruptsSent_def stopPlayback_def Let_def clearPlaybackTimeout_def
      dispatchEvent_def emit_def split: option.splits)

lemma voiced_frame:
  assumes "\<not> protected s" and "isVoiceDetected s"
    and "js_gt (calculateRMSEnergy (inputData f)) (voiceThreshold s)"
  shows "handleAudioProcess st s f =
           dispatchEvent
             (s\<lparr>lastVoiceTime := dateNow1 f, audioBuffer := audioBuffer s @ [inputData f]\<rparr>)
             RECORDING_DATA
             (RecordingData (inputData f) (calculateRMSEnergy (inputData f)) True)"
proof -
  have le: "\<not> js_le (calculateRMSEnergy (inputData f)) (voiceThreshold s)"
    using assms(3) by (rule js_gt_not_le)
  show ?thesis
    unfolding handleAudioProcess_def Let_def
    using assms le by simp
qed

lemma voiced_frames:
  assumes "\<not> protected s" and "isVoiceDetected s"
    and "\<forall>g \<in> set later. js_gt (calculateRMSEnergy (inputData g)) (voiceThreshold s)"
  shows "interruptsSent (processFrames st s later) = interruptsSent s"
  using assms
proof (induction later arbitrary: s)
  case Nil
  then show ?case by (simp add: processFrames_def)
next
  case (Cons g gs)
  let ?s' = "handleAudioProcess st s g"
  have step: "?s' = dispatchEvent
             (s\<lparr>lastVoiceTime := dateNow1 g, audioBuffer := audioBuffer s @ [inputData g]\<rparr>)
             RECORDING_DATA
             (RecordingData (inputData g) (calculateRMSEnergy (inputData g)) True)"
    using Cons.prems by (simp add: voiced_frame)
  have inv: "\<not> protected ?s'" "isVoiceDetected ?s'"
    "\<forall>g \<in> set gs. js_gt (calculateRMSEnergy (inputData g)) (voiceThreshold ?s')"
    using Cons.prems by (simp_all add: step)
  have "interruptsSent ?s' = interruptsSent s"
    by (simp add: step) (simp add: interruptsSent_def)
  with Cons.IH[OF inv] show ?case
    by (simp add: processFrames_def)
qed

text \<open>
  C1. Take a frame processed while no protected flag is set, with energy above
  \<open>voiceThreshold\<close>, the voice flag down (a speech onset) and the assistant speaking
  (\<open>isSpeaking\<close>, or \<open>audioState = SPEAKING\<close>). The callback calls
  \<open>stopPlayback\<close>, then sends exactly one interrupt to the server; with a source
  playing, the source is stopped, the queue emptied and the playing flags dropped. The
  voice flag is then up, and the frames above the threshold that follow send no further
  interrupt.
\<close>

theorem barge_in_interrupts_once:
  assumes "\<not> protected s"
    and "js_gt (calculateRMSEnergy (inputData f)) (voiceThreshold s)"
    and "\<not> isVoiceDetected s"
    and "isSpeaking s \<or> audioState s = SPEAKING"
    and "\<forall>g \<in> set later. js_gt (calculateRMSEnergy (inputData g)) (voiceThreshold s)"
  shows "effects (handleAudioProcess st s f) =
           effects (stopPlayback st s)
             @ [WsInterrupt, Dispatch PLAYBACK_STOP UserInterrupt,
                Dispatch RECORDING_DATA
                  (RecordingData (inputData f) (calculateRMSEnergy (inputData f)) True)]
         \<and> interruptsSent (handleAudioProcess st s f) = interruptsSent s + 1
         \<and> (\<forall>src. currentSource s = Some src \<longrightarrow>
               SourceStop src \<in> set (drop (length (effects s)) (effects (handleAudioProcess st s f)))
               \<and> audioQueue (handleAudioProcess st s f) = []
               \<and> \<not> isPlaying (handleAudioProcess st s f)
               \<and> \<not> isSpeaking (handleAudioProcess st s f))
         \<and> isVoiceDetected (handleAudioProcess st s f)
         \<and> interruptsSent (processFrames st (handleAudioProcess st s f) later)
             = interruptsSent s + 1"
proof -
  let ?s' = "handleAudioProcess st s f"
  note step = onset_frame[OF assms(1-4), of st]
  have e: "effects ?s' = effects (stopPlayback st s)
             @ [WsInterrupt, Dispatch PLAYBACK_STOP UserInterrupt,
                Dispatch RECORDING_DATA
                  (RecordingData (inputData f) (calculateRMSEnergy (inputData f)) True)]"
    by (simp add: step)
  have "interruptsSent ?s' = length (filter (\<lambda>e. e = WsInterrupt) (effects (stopPlayback st s))) + 1"
    unfolding interruptsSent_def e by simp
  then have i: "interruptsSent ?s' = interruptsSent s + 1"
    using interruptsSent_stopPlayback[of st s] by (simp add: interruptsSent_def)
  have p: "SourceStop src \<in> set (drop (length (effects s)) (effects ?s'))
           \<and> audioQueue ?s' = [] \<and> \<not> isPlaying ?s' \<and> \<not> isSpeaking ?s'"
    if "currentSource s = Some src" for src
    using stopPlayback_stops[OF that, of st] stopPlayback_effects[OF that, of st]
    by (simp add: step)
  have inv: "\<not> protected ?s'" "isVoiceDetected ?s'"
    "\<forall>g \<in> set later. js_gt (calculateRMSEnergy (inputData g)) (voiceThreshold ?s')"
    using assms by (simp_all add: step)
  have "interruptsSent (processFrames st ?s' later) = interruptsSent s + 1"
    using voiced_frames[OF inv, of st] i by simp
  with e i p inv(2) show ?thesis by blast
qed


subsection \<open>Stopping playback\<close>

lemma played_append [simp]:
  "played (dispatchEvent s ev d) = played s"
  "played (emit (ClearTimeout h) s) = played s"
  "played (s\<lparr>isPlaying := b\<rparr>) = played s"
  "played (s\<lparr>isSpeaking := b\<rparr>) = played s"
  "played (s\<lparr>audioState := a\<rparr>) = played s"
  "played (s\<lparr>currentSource := c\<rparr>) = played s"
  "played (s\<lparr>playbackTimeoutId := p\<rparr>) = played s"
  by (simp_all add: played_def dispatchEvent_def emit_def)

lemma clearPlaybackTimeout_queue [simp]:
  "audioQueue (clearPlaybackTimeout s) = audioQueue s"
  "played (clearPlaybackTimeout s) = played s"
  by (simp_all add: clearPlaybackTimeout_def split: option.splits)

lemma empty_queue_callback:
  assumes "audioQueue s = []" and "i = Ended \<or> i = TimedOut"
  shows "audioQueue (playbackStep startThrows s i) = []
         \<and> played (playbackStep startThrows s i) = played s"
  using assms by (auto simp: onended_def playbackTimeout_def Let_def)

lemma empty_queue_callbacks:
  assumes "audioQueue s = []" and "\<forall>i \<in> set inputs. i = Ended \<or> i = TimedOut"
  shows "played (playbackRun startThrows s inputs) = played s"
  using assms
proof (induction inputs arbitrary: s)
  case Nil
  then show ?case by (simp add: playbackRun_def)
next
  case (Cons i rest)
  from Cons.prems have c: "i = Ended \<or> i = TimedOut" by simp
  note st = empty_queue_callback[OF Cons.prems(1) c, of startThrows]
  have "played (playbackRun startThrows (playbackStep startThrows s i) rest)
          = played (playbackStep startThrows s i)"
    using Cons.IH[of "playbackStep startThrows s i"] st Cons.prems(2) by simp
  with st show ?case by (simp add: playbackRun_def)
qed

text \<open>
  C2. \<open>stopPlayback\<close> with a source playing in the state \<open>SPEAKING\<close>: the pending
  safety timer, if any, is cancelled; \<open>stop\<close> is called on the source; the queue is
  emptied at once; one \<open>PLAYBACK_STOP\<close> is dispatched, with \<open>interrupted\<close> true and
  the interrupted state \<open>SPEAKING\<close>. Afterwards no completion or timer callback starts
  a buffer: nothing is played until a chunk is enqueued.
\<close>

theorem interrupt_stops_and_clears:
  assumes "currentSource s = Some src" and "audioState s = SPEAKING"
    and "\<forall>i \<in> set inputs. i = Ended \<or> i = TimedOut"
  shows "effects (stopPlayback stopThrows s) =
           effects s @ (case playbackTimeoutId s of None \<Rightarrow> [] | Some h \<Rightarrow> [ClearTimeout h])
             @ [SourceStop src, Dispatch PLAYBACK_STOP (StopInfo True SPEAKING)]
         \<and> audioQueue (stopPlayback stopThrows s) = []
         \<and> playbackTimeoutId (stopPlayback stopThrows s) = None
         \<and> \<not> isPlaying (stopPlayback stopThrows s)
         \<and> \<not> isSpeaking (stopPlayback stopThrows s)
         \<and> audioState (stopPlayback stopThrows s) = INTERRUPTED
         \<and> (\<not> stopThrows \<longrightarrow> currentSource (stopPlayback stopThrows s) = None)
         \<and> played (playbackRun startThrows (stopPlayback stopThrows s) inputs)
             = played s"
proof -
  let ?s' = "stopPlayback stopThrows s"
  have e: "effects ?s' =
           effects s @ (case playbackTimeoutId s of None \<Rightarrow> [] | Some h \<Rightarrow> [ClearTimeout h])
             @ [SourceStop src, Dispatch PLAYBACK_STOP (StopInfo True SPEAKING)]"
    using stopPlayback_effects[OF assms(1), of stopThrows] assms(2) by simp
  have f: "audioState ?s' = INTERRUPTED" "\<not> stopThrows \<longrightarrow> currentSource ?s' = None"
    using assms(1,2)
    by (simp_all add: stopPlayback_def Let_def clearPlaybackTimeout_def
        dispatchEvent_def emit_def split: option.splits)
  have "played ?s' = played s"
    unfolding played_def e by (cases "playbackTimeoutId s") simp_all
  then have "played (playbackRun startThrows ?s' inputs) = played s"
    using empty_queue_callbacks[OF stopPlayback_stops(1)[OF assms(1)] assms(3)] by simp
  with e f stopPlayback_stops(1-4)[OF assms(1), of stopThrows] show ?thesis by blast
qed

subsection \<open>The WAV encoding\<close>

lemma replicate44: "replicate 44 (0::nat) =
  [0,0,0,0, 0,0,0,0, 0,0,0,0, 0,0,0,0, 0,0,0,0, 0,0,0,0, 0,0,0,0, 0,0,0,0, 0,0,0,0, 0,0,0,0, 0,0,0,0]"
  by (simp add: numeral_eq_Suc)

lemma setUint8_Cons:
  "0 < off \<Longrightarrow> setUint8 (x # xs) off v = map_option ((#) x) (setUint8 xs (off - 1) v)"
  by (cases off) (simp_all add: setUint8_def)

lemma setUint8_0: "setUint8 (a # xs) 0 v = Some (v mod 256 # xs)"
  by (simp add: setUint8_def)

lemma setUint16_Cons:
  "0 < off \<Longrightarrow> setUint16 (x # xs) off v = map_option ((#) x) (setUint16 xs (off - 1) v)"
  by (cases off) (simp_all add: setUint16_def Let_def)

lemma setUint16_0: "setUint16 (a # b # xs) 0 v = Some (le16 (v mod 65536) @ xs)"
  by (simp add: setUint16_def le16_def Let_def)

lemma setUint32_Cons:
  "0 < off \<Longrightarrow> setUint32 (x # xs) off v = map_option ((#) x) (setUint32 xs (off - 1) v)"
  by (cases off) (simp_all add: setUint32_def Let_def numeral_3_eq_3 numeral_2_eq_2)

lemma setUint32_0:
  "setUint32 (a # b # c # d # xs) 0 v = Some (le32 (v mod 4294967296) @ xs)"
  by (simp add: setUint32_def le32_def Let_def)

lemmas dataview_peel =
  setUint8_Cons setUint8_0 setUint16_Cons setUint16_0 setUint32_Cons setUint32_0

lemma header_written:
  "float32ToWav b r = writeSamples (wavHeader (length b) r @ replicate (length b * 2) 0) 0 b"
proof -
  have r: "replicate (44 + length b * 2) (0::nat) = replicate 44 0 @ replicate (length b * 2) 0"
    by (simp add: replicate_add)
  show ?thesis
    unfolding float32ToWav_def Let_def r replicate44
    by (simp add: dataview_peel wavHeader_def le16_def le32_def)
qed


lemma writeSamples_closed:
  "length pre = 44 + i * 2 \<Longrightarrow>
     writeSamples (pre @ replicate (length xs * 2) 0) i xs
       = Some (pre @ concat (map encodeSample xs))"
proof (induction xs arbitrary: pre i)
  case Nil
  then show ?case by simp
next
  case (Cons x xs)
  have w: "setInt16 (pre @ replicate (length (x # xs) * 2) 0) (44 + i * 2) (sampleToInt16Value x)
             = Some ((pre @ encodeSample x) @ replicate (length xs * 2) 0)"
    using Cons.prems
    by (simp add: setInt16_def Let_def list_update_append encodeSample_def le16_def)
  have l: "length (pre @ encodeSample x) = 44 + (i + 1) * 2"
    using Cons.prems by (simp add: encodeSample_def le16_def)
  show ?case
    using Cons.IH[OF l] w by simp
qed

lemma length_wavHeader [simp]: "length (wavHeader n r) = 44"
  by (simp add: wavHeader_def le16_def le32_def)

lemma float32ToWav_closed:
  "float32ToWav b r = Some (wavHeader (length b) r @ concat (map encodeSample b))"
proof -
  have l: "length (wavHeader (length b) r) = 44 + 0 * 2" by simp
  show ?thesis
    using writeSamples_closed[OF l, of b] by (simp add: header_written)
qed

lemma length_encoded [simp]: "length (concat (map encodeSample b)) = 2 * length b"
  by (induction b) (simp_all add: encodeSample_def le16_def)

lemma le32_value:
  "u < 4294967296 \<Longrightarrow>
     u mod 256 + 256 * (u div 256 mod 256) + 65536 * (u div 65536 mod 256)
       + 16777216 * (u div 16777216) = u" for u :: nat
proof -
  have a: "u div 65536 = u div 256 div 256" "u div 16777216 = u div 256 div 256 div 256"
    by (simp_all add: div_mult2_eq[symmetric])
  have b: "u = u mod 256 + 256 * (u div 256)" by simp
  have c: "u div 256 = u div 256 mod 256 + 256 * (u div 256 div 256)" by simp
  have d: "u div 256 div 256 = u div 256 div 256 mod 256 + 256 * (u div 256 div 256 div 256)" by simp
  show ?thesis unfolding a using b c d by linarith
qed

lemma ToInt16_range: "- 32768 \<le> ToInt16 v \<and> ToInt16 v \<le> 32767"
proof -
  have "0 \<le> js_truncate v mod 65536" "js_truncate v mod 65536 < 65536" by simp_all
  then show ?thesis unfolding ToInt16_def Let_def by (simp split: if_splits) linarith
qed

lemma getUint32_riff:
  "getUint32 (wavHeader n r @ d) 4 = (36 + n * 2) mod 4294967296"
proof -
  have "getUint32 (wavHeader n r @ d) 4 = getUint32 (wavHeader n r) 4"
    by (simp add: getUint32_def nth_append)
  also have "\<dots> = (36 + n * 2) mod 4294967296"
    using le32_value[of "(36 + n * 2) mod 4294967296"]
    by (simp add: getUint32_def wavHeader_def le32_def)
  finally show ?thesis .
qed

lemma getUint32_data:
  "getUint32 (wavHeader n r @ d) 40 = n * 2 mod 4294967296"
proof -
  have "getUint32 (wavHeader n r @ d) 40 = getUint32 (wavHeader n r) 40"
    by (simp add: getUint32_def nth_append)
  also have "\<dots> = n * 2 mod 4294967296"
    using le32_value[of "n * 2 mod 4294967296"]
    by (simp add: getUint32_def wavHeader_def le32_def le16_def)
  finally show ?thesis .
qed

lemma encoded_nth:
  "i < length b \<Longrightarrow>
     concat (map encodeSample b) ! (2 * i) = encodeSample (b ! i) ! 0
     \<and> concat (map encodeSample b) ! (2 * i + 1) = encodeSample (b ! i) ! 1"
proof (induction b arbitrary: i)
  case Nil
  then show ?case by simp
next
  case (Cons x xs)
  show ?case
  proof (cases i)
    case 0
    then show ?thesis by (simp add: encodeSample_def le16_def)
  next
    case (Suc j)
    with Cons.prems have j: "j < length xs" by simp
    have l: "length (encodeSample x) = 2" by (simp add: encodeSample_def le16_def)
    show ?thesis using Cons.IH[OF j] Suc by (simp add: nth_append l)
  qed
qed


lemma mod_65536_signed:
  fixes t :: int
  assumes "- 32768 \<le> t" and "t \<le> 32767"
  shows "t mod 65536 = (if t < 0 then t + 65536 else t)"
proof (cases "t < 0")
  case True
  have "(t + 65536) mod 65536 = t + 65536"
    using assms True by (intro mod_pos_pos_trivial) simp_all
  moreover have "(t + 65536) mod 65536 = t mod 65536" by simp
  ultimately show ?thesis using True by simp
next
  case False
  then have "t mod 65536 = t" using assms by (intro mod_pos_pos_trivial) simp_all
  with False show ?thesis by simp
qed

lemma int_of_two_bytes: "int (u mod 256) + 256 * int (u div 256) = int u"
  by (simp add: zmod_int zdiv_int)

lemma getInt16_le16:
  assumes "- 32768 \<le> t" and "t \<le> 32767"
  shows "getInt16 (le16 (nat (t mod 65536))) 0 = t"
proof -
  have u: "int (nat (t mod 65536)) = t mod 65536" by simp
  have s: "int (nat (t mod 65536) mod 256) + 256 * int (nat (t mod 65536) div 256)
             = t mod 65536"
    unfolding int_of_two_bytes u ..
  show ?thesis
    unfolding getInt16_def le16_def Let_def
    using s mod_65536_signed[OF assms] assms by simp
qed

lemma sampleToInt16Value_range:
  "- 32768 \<le> sampleToInt16Value x \<and> sampleToInt16Value x \<le> 32767"
  by (simp add: sampleToInt16Value_def Let_def min_def max_def)

lemma js_truncate_range:
  assumes "- 32768 \<le> v" and "v \<le> 32767"
  shows "- 32768 \<le> js_truncate v \<and> js_truncate v \<le> 32767"
proof (cases "v < 0")
  case True
  have e: "js_truncate v = - \<lfloor>- v\<rfloor>" using True by (simp add: js_truncate_def)
  have a: "\<lfloor>- v\<rfloor> \<le> 32768" using assms by (simp add: floor_le_iff)
  have b: "0 \<le> \<lfloor>- v\<rfloor>" using True by simp
  show ?thesis unfolding e using a b by linarith
next
  case False
  have e: "js_truncate v = \<lfloor>v\<rfloor>" using False by (simp add: js_truncate_def)
  have a: "\<lfloor>v\<rfloor> \<le> 32767" using assms by (simp add: floor_le_iff)
  have b: "0 \<le> \<lfloor>v\<rfloor>" using False by simp
  show ?thesis unfolding e using a b by linarith
qed

lemma ToInt16_fits:
  assumes "- 32768 \<le> v" and "v \<le> 32767"
  shows "ToInt16 v = js_truncate v"
proof -
  from js_truncate_range[OF assms] have r: "- 32768 \<le> js_truncate v" "js_truncate v \<le> 32767"
    by simp_all
  show ?thesis
    unfolding ToInt16_def Let_def mod_65536_signed[OF r] using r by simp
qed

lemma getInt16_sample:
  assumes "i < length b"
  shows "getInt16 (wavHeader (length b) r @ concat (map encodeSample b)) (44 + 2 * i)
           = js_truncate (sampleToInt16Value (b ! i))"
proof -
  let ?w = "wavHeader (length b) r @ concat (map encodeSample b)"
  let ?t = "ToInt16 (sampleToInt16Value (b ! i))"
  have n: "?w ! (44 + 2 * i) = encodeSample (b ! i) ! 0"
    "?w ! (44 + 2 * i + 1) = encodeSample (b ! i) ! 1"
    using encoded_nth[OF assms] by (simp_all add: nth_append)
  have "getInt16 ?w (44 + 2 * i) = getInt16 (encodeSample (b ! i)) 0"
    unfolding getInt16_def n by simp
  also have "\<dots> = ?t"
    unfolding encodeSample_def using ToInt16_range[of "sampleToInt16Value (b ! i)"]
    by (intro getInt16_le16) simp_all
  also have "\<dots> = js_truncate (sampleToInt16Value (b ! i))"
    using sampleToInt16Value_range[of "b ! i"] by (intro ToInt16_fits) simp_all
  finally show ?thesis .
qed

lemma copyBuffers_closed:
  "length pre = off \<Longrightarrow>
     copyBuffers (pre @ replicate (length (concat bs)) 0) off bs = Some (pre @ concat bs)"
proof (induction bs arbitrary: pre off)
  case Nil
  then show ?case by simp
next
  case (Cons b bs)
  have w: "typedArraySet (pre @ replicate (length (concat (b # bs))) 0) b off
             = Some ((pre @ b) @ replicate (length (concat bs)) 0)"
    using Cons.prems by (simp add: typedArraySet_def replicate_add)
  have l: "length (pre @ b) = off + length b" using Cons.prems by simp
  show ?case using Cons.IH[OF l] w by simp
qed

lemma encodeUtterance_eq:
  "encodeUtterance bs r = float32ToWav (concat bs) r"
  using copyBuffers_closed[of "[]" 0 bs]
  by (simp add: encodeUtterance_def Let_def totalLength_concat)

lemma encodeUtterance_returns: "encodeUtterance buffers rate \<noteq> None"
  by (simp add: encodeUtterance_eq float32ToWav_closed)

text \<open>
  C10, as amended. For every input of \<open>n\<close> samples and every rate, \<open>float32ToWav\<close>
  returns \<open>44 + 2 * n\<close> bytes. The RIFF chunk-size field holds the total size minus 8
  and the data-chunk size field holds \<open>2 * n\<close>, both modulo \<open>2^32\<close>, hence exactly
  whenever \<open>36 + 2 * n < 2^32\<close>. Every sample is clamped to \<open>[-1, 1]\<close> and scaled
  (by 32768 below zero, by 32767 otherwise) to a value within the signed 16-bit range,
  and the 16-bit field read back is that value truncated towards zero: nothing wraps.
\<close>

theorem float32ToWav_layout:
  "\<exists>wav. float32ToWav buffer rate = Some wav
     \<and> length wav = 44 + 2 * length buffer
     \<and> getUint32 wav 4 = (length wav - 8) mod 4294967296
     \<and> getUint32 wav 40 = (2 * length buffer) mod 4294967296
     \<and> (36 + 2 * length buffer < 4294967296 \<longrightarrow>
           getUint32 wav 4 = length wav - 8 \<and> getUint32 wav 40 = 2 * length buffer)
     \<and> (\<forall>i < length buffer.
           - 32768 \<le> sampleToInt16Value (buffer ! i)
           \<and> sampleToInt16Value (buffer ! i) \<le> 32767
           \<and> getInt16 wav (44 + 2 * i) = js_truncate (sampleToInt16Value (buffer ! i)))"
proof -
  let ?wav = "wavHeader (length buffer) rate @ concat (map encodeSample buffer)"
  have w: "float32ToWav buffer rate = Some ?wav" by (rule float32ToWav_closed)
  have l: "length ?wav = 44 + 2 * length buffer" by simp
  have a: "getUint32 ?wav 4 = (length ?wav - 8) mod 4294967296"
    unfolding l getUint32_riff by (simp add: mult.commute)
  have b: "getUint32 ?wav 40 = (2 * length buffer) mod 4294967296"
    unfolding getUint32_data by (simp add: mult.commute)
  have c: "36 + 2 * length buffer < 4294967296 \<longrightarrow>
           getUint32 ?wav 4 = length ?wav - 8 \<and> getUint32 ?wav 40 = 2 * length buffer"
    unfolding a b l by simp
  have d: "\<forall>i < length buffer.
           - 32768 \<le> sampleToInt16Value (buffer ! i)
           \<and> sampleToInt16Value (buffer ! i) \<le> 32767
           \<and> getInt16 ?wav (44 + 2 * i) = js_truncate (sampleToInt16Value (buffer ! i))"
    using sampleToInt16Value_range getInt16_sample by blast
  from w l a b c d show ?thesis by blast
qed

theorem float32ToWav_layout_witness:
  "length (the (float32ToWav [1 / 2, - 1, 2] 44100)) = 50
   \<and> getUint32 (the (float32ToWav [1 / 2, - 1, 2] 44100)) 4 = 42
   \<and> getUint32 (the (float32ToWav [1 / 2, - 1, 2] 44100)) 40 = 6
   \<and> getInt16 (the (float32ToWav [1 / 2, - 1, 2] 44100)) 44 = 16383
   \<and> getInt16 (the (float32ToWav [1 / 2, - 1, 2] 44100)) 46 = - 32768
   \<and> getInt16 (the (float32ToWav [1 / 2, - 1, 2] 44100)) 48 = 32767"
proof -
  obtain wav where w: "float32ToWav [1 / 2, - 1, 2] 44100 = Some wav"
    and l: "length wav = 44 + 2 * length [1 / 2, - 1, 2::real]"
    and f: "36 + 2 * length [1 / 2, - 1, 2::real] < 4294967296 \<longrightarrow>
           getUint32 wav 4 = length wav - 8 \<and> getUint32 wav 40 = 2 * length [1 / 2, - 1, 2::real]"
    and d: "\<forall>i < length [1 / 2, - 1, 2::real].
           getInt16 wav (44 + 2 * i) = js_truncate (sampleToInt16Value ([1 / 2, - 1, 2] ! i))"
    using float32ToWav_layout[of "[1 / 2, - 1, 2]" 44100] by blast
  have "getInt16 wav (44 + 2 * 0) = js_truncate (sampleToInt16Value ([1 / 2, - 1, 2] ! 0))"
    "getInt16 wav (44 + 2 * 1) = js_truncate (sampleToInt16Value ([1 / 2, - 1, 2] ! 1))"
    "getInt16 wav (44 + 2 * 2) = js_truncate (sampleToInt16Value ([1 / 2, - 1, 2] ! 2))"
    using d[rule_format, of 0] d[rule_format, of 1] d[rule_format, of 2] by simp_all
  then have "getInt16 wav 44 = 16383" "getInt16 wav 46 = - 32768" "getInt16 wav 48 = 32767"
    by (simp_all add: sampleToInt16Value_def js_truncate_def)
  with l f show ?thesis unfolding w by simp
qed

text \<open>
  The size fields are 32 bits wide. With \<open>2147483630\<close> samples the total size minus 8
  is \<open>2^32\<close>, and the RIFF chunk-size field reads 0.
\<close>

theorem float32ToWav_riff_size_wraps:
  "getUint32 (the (float32ToWav (replicate 2147483630 0) 44100)) 4
     \<noteq> length (the (float32ToWav (replicate 2147483630 0) 44100)) - 8"
proof -
  let ?b = "replicate 2147483630 (0::real)"
  have w: "the (float32ToWav ?b 44100) = wavHeader (length ?b) 44100 @ concat (map encodeSample ?b)"
    by (simp only: float32ToWav_closed option.sel)
  have n: "length ?b = 2147483630" by (simp only: length_replicate)
  have "getUint32 (the (float32ToWav ?b 44100)) 4 = 0"
    unfolding w getUint32_riff n by simp
  moreover have "length (the (float32ToWav ?b 44100)) = 4294967304"
    unfolding w length_append length_wavHeader length_encoded n by simp
  ultimately show ?thesis by simp
qed

subsection \<open>Finalizing a voice segment\<close>





subsection \<open>\<open>playNextChunk\<close>, case by case\<close>

lemma clearPlaybackTimeout_fields [simp]:
  "effects (clearPlaybackTimeout s) = effects s @ clearing s"
  "playbackTimeoutId (clearPlaybackTimeout s) = None"
  "audioContext (clearPlaybackTimeout s) = audioContext s"
  "isPlaying (clearPlaybackTimeout s) = isPlaying s"
  "isSpeaking (clearPlaybackTimeout s) = isSpeaking s"
  "audioState (clearPlaybackTimeout s) = audioState s"
  "currentSource (clearPlaybackTimeout s) = currentSource s"
  "nextTimeoutHandle (clearPlaybackTimeout s) = nextTimeoutHandle s"
  by (simp_all add: clearPlaybackTimeout_def clearing_def emit_def split: option.splits)

lemma clearing_projections [simp]:
  "filter (dispatched ev) (clearing s) = []"
  "concat (map startedBuffer (clearing s)) = []"
  "clearing (s\<lparr>playbackTimeoutId := None\<rparr>) = []"
  by (auto simp: clearing_def split: option.splits)

lemma clearPlaybackTimeout_idem:
  "playbackTimeoutId s = None \<Longrightarrow> clearPlaybackTimeout s = s"
  by (simp add: clearPlaybackTimeout_def)

lemma playNextChunk_empty:
  "audioQueue s = [] \<Longrightarrow>
     playNextChunk st s =
       dispatchEvent
         ((clearPlaybackTimeout s)\<lparr>isPlaying := False, isSpeaking := False, audioState := INACTIVE\<rparr>)
         PLAYBACK_END (EndInfo SPEAKING False False)"
  by (subst playNextChunk.simps) (simp add: Let_def)

lemma playNextChunk_no_context:
  "audioQueue s = b # q \<Longrightarrow> \<not> audioContext s \<Longrightarrow> playNextChunk st s = clearPlaybackTimeout s"
  by (subst playNextChunk.simps) (simp add: Let_def)

lemma playNextChunk_started:
  "audioQueue s = b # q \<Longrightarrow> audioContext s \<Longrightarrow> \<not> st b \<Longrightarrow> playNextChunk st s = started s b q"
  by (subst playNextChunk.simps) (simp add: Let_def started_def)

lemma playNextChunk_skip:
  "audioQueue s = b # q \<Longrightarrow> audioContext s \<Longrightarrow> st b \<Longrightarrow> q \<noteq> [] \<Longrightarrow>
     playNextChunk st s = playNextChunk st (skipped s b q)"
  by (subst playNextChunk.simps)
     (simp add: Let_def skipped_def clearPlaybackTimeout_idem)

lemma playNextChunk_skip_last:
  "audioQueue s = [b] \<Longrightarrow> audioContext s \<Longrightarrow> st b \<Longrightarrow>
     playNextChunk st s =
       dispatchEvent
         ((skipped s b [])\<lparr>isPlaying := False, isSpeaking := False, audioState := INACTIVE\<rparr>)
         PLAYBACK_END (EndInfo SPEAKING True False)"
  by (subst playNextChunk.simps)
     (simp add: Let_def skipped_def clearPlaybackTimeout_idem)

lemma started_fields [simp]:
  "effects (started s b q) =
     effects s @ clearing s
       @ [SourceStart b, SetTimeout (nextTimeoutHandle s) (duration b * 1000 + 1000)]
       @ (if isPlaying s then [] else [Dispatch PLAYBACK_START NoData])"
  "audioQueue (started s b q) = q"
  "isPlaying (started s b q)"
  "isSpeaking (started s b q)"
  "audioState (started s b q) = SPEAKING"
  "audioContext (started s b q) = audioContext s"
  "currentSource (started s b q) = Some b"
  "playbackTimeoutId (started s b q) = Some (nextTimeoutHandle s)"
  by (simp_all add: started_def Let_def armPlaybackTimeout_def emit_def dispatchEvent_def)

lemma skipped_fields [simp]:
  "effects (skipped s b q) = effects s @ clearing s @ [Dispatch AUDIO_ERROR ErrorInfo]"
  "audioQueue (skipped s b q) = q"
  "isPlaying (skipped s b q)"
  "audioContext (skipped s b q) = audioContext s"
  "playbackTimeoutId (skipped s b q) = None"
  by (simp_all add: skipped_def dispatchEvent_def)

subsection \<open>A batch is played in order\<close>

lemma enqueue_while_playing:
  "isPlaying s \<Longrightarrow>
     playAudioChunk st s (Decoded b) = s\<lparr>audioContext := True, audioQueue := audioQueue s @ [b]\<rparr>"
  by (simp add: playAudioChunk_def Let_def)

lemma enqueue_while_idle:
  "\<not> isPlaying s \<Longrightarrow> audioQueue s = [] \<Longrightarrow> \<not> st b \<Longrightarrow>
     playAudioChunk st s (Decoded b) = started (s\<lparr>audioContext := True, audioQueue := [b]\<rparr>) b []"
  by (simp add: playAudioChunk_def Let_def playNextChunk_started)

lemma onended_last:
  "audioQueue s = [] \<Longrightarrow>
     onended st s =
       dispatchEvent
         ((clearPlaybackTimeout s)\<lparr>isPlaying := False, isSpeaking := False,
            audioState := INACTIVE, currentSource := None\<rparr>)
         PLAYBACK_END (EndInfo SPEAKING False False)"
  by (simp add: onended_def Let_def)

lemma onended_next:
  "audioQueue s = b # q \<Longrightarrow> audioContext s \<Longrightarrow> \<not> st b \<Longrightarrow>
     onended st s = started (clearPlaybackTimeout s) b q"
  by (simp add: onended_def Let_def playNextChunk_started)

lemma oneBatch_none_pending: "oneBatch 0 inputs \<longleftrightarrow> inputs = []"
proof (cases inputs)
  case Nil
  then show ?thesis by simp
next
  case (Cons i rest)
  then show ?thesis by (cases i) simp_all
qed

lemma playing_batch:
  assumes "isPlaying s" and "audioContext s"
    and "\<forall>b \<in> set (audioQueue s @ enqueued rest). \<not> st b"
    and "oneBatch (Suc (length (audioQueue s))) rest"
  shows "played (playbackRun st s rest) = played s @ audioQueue s @ enqueued rest
         \<and> eventCount PLAYBACK_START (playbackRun st s rest) = eventCount PLAYBACK_START s
         \<and> eventCount PLAYBACK_END (playbackRun st s rest) = eventCount PLAYBACK_END s + 1
         \<and> \<not> isPlaying (playbackRun st s rest)
         \<and> audioQueue (playbackRun st s rest) = []"
  using assms
proof (induction rest arbitrary: s)
  case Nil
  then show ?case by simp
next
  case (Cons i rest)
  let ?s' = "playbackStep st s i"
  have run: "playbackRun st s (i # rest) = playbackRun st ?s' rest"
    by (simp add: playbackRun_def)
  show ?case
  proof (cases i)
    case (Enqueue b)
    have s': "?s' = s\<lparr>audioContext := True, audioQueue := audioQueue s @ [b]\<rparr>"
      using Cons.prems(1) by (simp add: Enqueue enqueue_while_playing)
    have pre: "isPlaying ?s'" "audioContext ?s'"
      "\<forall>b \<in> set (audioQueue ?s' @ enqueued rest). \<not> st b"
      using Cons.prems unfolding s' by (auto simp: Enqueue enqueued_def)
    have same: "played ?s' = played s"
      "eventCount PLAYBACK_START ?s' = eventCount PLAYBACK_START s"
      "eventCount PLAYBACK_END ?s' = eventCount PLAYBACK_END s"
      unfolding s' by (simp_all add: played_def eventCount_def)
    have batch: "oneBatch (Suc (length (audioQueue ?s'))) rest"
      using Cons.prems(4) unfolding s' by (simp add: Enqueue)
    from Cons.IH[OF pre batch] show ?thesis
      unfolding run same unfolding s' by (simp add: Enqueue enqueued_def)
  next
    case Ended
    show ?thesis
    proof (cases "audioQueue s = []")
      case True
      have s': "?s' = dispatchEvent
         ((clearPlaybackTimeout s)\<lparr>isPlaying := False, isSpeaking := False,
            audioState := INACTIVE, currentSource := None\<rparr>)
         PLAYBACK_END (EndInfo SPEAKING False False)"
        by (simp add: Ended onended_last True)
      have idle: "\<not> isPlaying ?s'" unfolding s' by simp
      have "oneBatch 0 rest" using Cons.prems(4) by (simp add: Ended True)
      then have rest: "rest = []" by (simp add: oneBatch_none_pending)
      have "played ?s' = played s"
        "eventCount PLAYBACK_START ?s' = eventCount PLAYBACK_START s"
        "eventCount PLAYBACK_END ?s' = eventCount PLAYBACK_END s + 1"
        "audioQueue ?s' = []"
        unfolding s' by (simp_all add: played_def eventCount_def True)
      with idle show ?thesis
        unfolding run rest by (simp add: playbackRun_def True enqueued_def Ended)
    next
      case False
      then obtain b q where q: "audioQueue s = b # q" by (cases "audioQueue s") auto
      have ok: "\<not> st b" using Cons.prems(3) q by simp
      have s': "?s' = started (clearPlaybackTimeout s) b q"
        using Cons.prems(2) ok by (simp add: Ended onended_next q)
      have pre: "isPlaying ?s'" "audioContext ?s'"
        "\<forall>b \<in> set (audioQueue ?s' @ enqueued rest). \<not> st b"
        using Cons.prems unfolding s' by (auto simp: Ended q enqueued_def)
      have step: "played ?s' = played s @ [b]"
        "eventCount PLAYBACK_START ?s' = eventCount PLAYBACK_START s"
        "eventCount PLAYBACK_END ?s' = eventCount PLAYBACK_END s"
        using Cons.prems(1) unfolding s' by (simp_all add: played_def eventCount_def)
      have batch: "oneBatch (Suc (length (audioQueue ?s'))) rest"
        using Cons.prems(4) unfolding s' by (simp add: Ended q)
      from Cons.IH[OF pre batch] show ?thesis
        unfolding run step unfolding s' by (simp add: Ended q enqueued_def)
    qed
  next
    case TimedOut
    with Cons.prems(4) show ?thesis by simp
  qed
qed

lemma playNextChunk_no_restart:
  "isPlaying s \<Longrightarrow>
     eventCount PLAYBACK_START (playNextChunk st s) = eventCount PLAYBACK_START s"
proof (induction "length (audioQueue s)" arbitrary: s rule: less_induct)
  case less
  show ?case
  proof (cases "audioQueue s")
    case Nil
    then show ?thesis by (simp add: playNextChunk_empty eventCount_def)
  next
    case q: (Cons b q)
    show ?thesis
    proof (cases "audioContext s")
      case False
      with q show ?thesis by (simp add: playNextChunk_no_context eventCount_def)
    next
      case ctx: True
      show ?thesis
      proof (cases "st b")
        case False
        with q ctx less.prems show ?thesis
          by (simp add: playNextChunk_started eventCount_def)
      next
        case thr: True
        show ?thesis
        proof (cases "q = []")
          case True
          with q ctx thr show ?thesis
            by (simp add: playNextChunk_skip_last eventCount_def)
        next
          case False
          have "eventCount PLAYBACK_START (playNextChunk st (skipped s b q))
                  = eventCount PLAYBACK_START (skipped s b q)"
            by (rule less.hyps) (simp_all add: q)
          with q ctx thr False show ?thesis
            by (simp add: playNextChunk_skip eventCount_def)
        qed
      qed
    qed
  qed
qed

text \<open>
  C4. An idle queue receives a chunk, and then, in any interleaving, further chunks and
  completion callbacks that form one batch: counting on the inputs alone, every chunk
  arrives before the earlier ones have all completed, and at the end all have
  completed. Every \<open>start\<close> succeeds. Then the buffers are started in
  exactly the order of their arrival, \<open>PLAYBACK_START\<close> is dispatched once (for the
  first buffer), \<open>PLAYBACK_END\<close> is dispatched once (when the queue empties), and the
  queue ends idle. In general \<open>playNextChunk\<close> on a playing queue dispatches no
  \<open>PLAYBACK_START\<close>.
\<close>

theorem batch_played_in_order:
  assumes "\<not> isPlaying s" and "audioQueue s = []"
    and "\<forall>b \<in> set (b0 # enqueued rest). \<not> startThrows b"
    and "oneBatch 1 rest"
  shows "played (playbackRun startThrows s (Enqueue b0 # rest))
           = played s @ b0 # enqueued rest
         \<and> eventCount PLAYBACK_START (playbackRun startThrows s (Enqueue b0 # rest))
             = eventCount PLAYBACK_START s + 1
         \<and> eventCount PLAYBACK_END (playbackRun startThrows s (Enqueue b0 # rest))
             = eventCount PLAYBACK_END s + 1
         \<and> \<not> isPlaying (playbackRun startThrows s (Enqueue b0 # rest))
         \<and> audioQueue (playbackRun startThrows s (Enqueue b0 # rest)) = []
         \<and> (\<forall>t. isPlaying t \<longrightarrow>
               eventCount PLAYBACK_START (playNextChunk startThrows t)
                 = eventCount PLAYBACK_START t)"
proof -
  let ?s1 = "playbackStep startThrows s (Enqueue b0)"
  have ok: "\<not> startThrows b0" using assms(3) by simp
  have s1: "?s1 = started (s\<lparr>audioContext := True, audioQueue := [b0]\<rparr>) b0 []"
    using assms(1,2) ok by (simp add: enqueue_while_idle)
  have pre: "isPlaying ?s1" "audioContext ?s1"
    "\<forall>b \<in> set (audioQueue ?s1 @ enqueued rest). \<not> startThrows b"
    using assms(3) unfolding s1 by simp_all
  have first: "played ?s1 = played s @ [b0]"
    "eventCount PLAYBACK_START ?s1 = eventCount PLAYBACK_START s + 1"
    "eventCount PLAYBACK_END ?s1 = eventCount PLAYBACK_END s"
    "audioQueue ?s1 = []"
    using assms(1) unfolding s1 by (simp_all add: played_def eventCount_def)
  have run: "playbackRun startThrows s (Enqueue b0 # rest) = playbackRun startThrows ?s1 rest"
    by (simp add: playbackRun_def)
  have batch: "oneBatch (Suc (length (audioQueue ?s1))) rest"
    using assms(4) unfolding first by simp
  from playing_batch[OF pre batch] playNextChunk_no_restart[of _ startThrows]
  show ?thesis unfolding run first by simp
qed

subsection \<open>The safety timer\<close>

lemma playNextChunk_progress:
  assumes "audioContext s"
  shows "(\<not> isPlaying (playNextChunk st s) \<and> \<not> isSpeaking (playNextChunk st s)
            \<and> audioState (playNextChunk st s) = INACTIVE
            \<and> eventCount PLAYBACK_END (playNextChunk st s) = eventCount PLAYBACK_END s + 1)
         \<or> (isPlaying (playNextChunk st s) \<and> audioContext (playNextChunk st s)
            \<and> playbackTimeoutId (playNextChunk st s) \<noteq> None
            \<and> length (audioQueue (playNextChunk st s)) < length (audioQueue s)
            \<and> eventCount PLAYBACK_END (playNextChunk st s) = eventCount PLAYBACK_END s)"
  using assms
proof (induction "length (audioQueue s)" arbitrary: s rule: less_induct)
  case less
  show ?case
  proof (cases "audioQueue s = []")
    case True
    then show ?thesis by (simp add: playNextChunk_empty eventCount_def)
  next
    case False
    then obtain b q where q: "audioQueue s = b # q" by (cases "audioQueue s") auto
    show ?thesis
    proof (cases "st b")
      case False
      with q less.prems show ?thesis
        by (simp add: playNextChunk_started eventCount_def)
    next
      case thr: True
      show ?thesis
      proof (cases "q = []")
        case True
        with q less.prems thr show ?thesis
          by (simp add: playNextChunk_skip_last eventCount_def)
      next
        case False
        have e: "playNextChunk st s = playNextChunk st (skipped s b q)"
          using q less.prems thr False by (simp add: playNextChunk_skip)
        have c: "eventCount PLAYBACK_END (skipped s b q) = eventCount PLAYBACK_END s"
          by (simp add: eventCount_def)
        have l: "length (audioQueue (skipped s b q)) < length (audioQueue s)"
          by (simp add: q)
        have ctx: "audioContext (skipped s b q)" using less.prems by simp
        from less.hyps[OF l ctx] show ?thesis
          unfolding e c using l by auto
      qed
    qed
  qed
qed

lemma playNextChunk_effects_prefix:
  "\<exists>new. effects (playNextChunk st s) = effects s @ new"
proof (induction "length (audioQueue s)" arbitrary: s rule: less_induct)
  case less
  show ?case
  proof (cases "audioQueue s = []")
    case True
    then show ?thesis by (simp add: playNextChunk_empty)
  next
    case False
    then obtain b q where q: "audioQueue s = b # q" by (cases "audioQueue s") auto
    show ?thesis
    proof (cases "audioContext s")
      case False
      with q show ?thesis by (simp add: playNextChunk_no_context)
    next
      case ctx: True
      show ?thesis
      proof (cases "st b")
        case False
        with q ctx show ?thesis by (simp add: playNextChunk_started)
      next
        case thr: True
        show ?thesis
        proof (cases "q = []")
          case True
          with q ctx thr show ?thesis by (simp add: playNextChunk_skip_last)
        next
          case False
          have e: "playNextChunk st s = playNextChunk st (skipped s b q)"
            using q ctx thr False by (simp add: playNextChunk_skip)
          have l: "length (audioQueue (skipped s b q)) < length (audioQueue s)"
            by (simp add: q)
          from less.hyps[OF l] show ?thesis unfolding e by auto
        qed
      qed
    qed
  qed
qed

lemma timeouts_drain:
  assumes "audioContext s"
  shows "\<exists>k. 1 \<le> k \<and> k \<le> Suc (length (audioQueue s))
           \<and> \<not> isPlaying ((playbackTimeout st ^^ k) s)
           \<and> \<not> isSpeaking ((playbackTimeout st ^^ k) s)
           \<and> audioState ((playbackTimeout st ^^ k) s) = INACTIVE
           \<and> eventCount PLAYBACK_END ((playbackTimeout st ^^ k) s)
               = eventCount PLAYBACK_END s + 1"
  using assms
proof (induction "length (audioQueue s)" arbitrary: s rule: less_induct)
  case less
  let ?t = "playbackTimeout st s"
  have one: "(playbackTimeout st ^^ 1) s = ?t" by simp
  show ?case
  proof (cases "audioQueue s = []")
    case True
    then have "\<not> isPlaying ?t \<and> \<not> isSpeaking ?t \<and> audioState ?t = INACTIVE
               \<and> eventCount PLAYBACK_END ?t = eventCount PLAYBACK_END s + 1"
      by (simp add: playbackTimeout_def Let_def eventCount_def)
    then show ?thesis unfolding one[symmetric] by (intro exI[of _ 1]) simp
  next
    case False
    let ?s1 = "s\<lparr>currentSource := None\<rparr>"
    have t: "?t = playNextChunk st ?s1"
      using False by (simp add: playbackTimeout_def Let_def)
    have c1: "audioContext ?s1" using less.prems by simp
    have e1: "eventCount PLAYBACK_END ?s1 = eventCount PLAYBACK_END s"
      by (simp add: eventCount_def)
    from playNextChunk_progress[OF c1, of st]
    consider (idle) "\<not> isPlaying ?t \<and> \<not> isSpeaking ?t \<and> audioState ?t = INACTIVE
                      \<and> eventCount PLAYBACK_END ?t = eventCount PLAYBACK_END s + 1"
      | (playing) "audioContext ?t \<and> length (audioQueue ?t) < length (audioQueue s)
                      \<and> eventCount PLAYBACK_END ?t = eventCount PLAYBACK_END s"
      unfolding t e1 by auto
    then show ?thesis
    proof cases
      case idle
      then show ?thesis unfolding one[symmetric] by (intro exI[of _ 1]) simp
    next
      case playing
      then have l: "length (audioQueue ?t) < length (audioQueue s)" and c: "audioContext ?t"
        and e: "eventCount PLAYBACK_END ?t = eventCount PLAYBACK_END s" by simp_all
      from less.hyps[OF l c] obtain k where k: "1 \<le> k" "k \<le> Suc (length (audioQueue ?t))"
        "\<not> isPlaying ((playbackTimeout st ^^ k) ?t)"
        "\<not> isSpeaking ((playbackTimeout st ^^ k) ?t)"
        "audioState ((playbackTimeout st ^^ k) ?t) = INACTIVE"
        "eventCount PLAYBACK_END ((playbackTimeout st ^^ k) ?t) = eventCount PLAYBACK_END ?t + 1"
        by blast
      have f: "(playbackTimeout st ^^ Suc k) s = (playbackTimeout st ^^ k) ?t"
        by (simp add: funpow_swap1)
      show ?thesis
        using k l unfolding f[symmetric] e by (intro exI[of _ "Suc k"]) simp
    qed
  qed
qed

text \<open>
  C5. When \<open>playNextChunk\<close> starts a buffer it arms a timer of
  \<open>(buffer.duration * 1000) + 1000\<close> milliseconds. If completions never arrive, at
  most one expiry per queued buffer plus one leaves the queue idle (not playing, not
  speaking, \<open>INACTIVE\<close>) with one \<open>PLAYBACK_END\<close> dispatched: an expiry with an empty
  queue resets the state and dispatches \<open>PLAYBACK_END\<close>, an expiry with a queued buffer
  starts it and arms a new timer. If the completion arrives, \<open>onended\<close> cancels the
  timer.
\<close>

theorem safety_timer_bounds_playback:
  assumes "audioQueue s = b # q" and "audioContext s" and "\<not> startThrows b"
  shows "playbackTimeoutId (playNextChunk startThrows s) = Some (nextTimeoutHandle s)
         \<and> SetTimeout (nextTimeoutHandle s) ((duration b * 1000) + 1000)
             \<in> set (drop (length (effects s)) (effects (playNextChunk startThrows s)))
         \<and> (\<exists>k. 1 \<le> k \<and> k \<le> Suc (length q)
               \<and> \<not> isPlaying ((playbackTimeout startThrows ^^ k) (playNextChunk startThrows s))
               \<and> \<not> isSpeaking ((playbackTimeout startThrows ^^ k) (playNextChunk startThrows s))
               \<and> audioState ((playbackTimeout startThrows ^^ k) (playNextChunk startThrows s))
                   = INACTIVE
               \<and> eventCount PLAYBACK_END
                     ((playbackTimeout startThrows ^^ k) (playNextChunk startThrows s))
                   = eventCount PLAYBACK_END (playNextChunk startThrows s) + 1)
         \<and> (q = [] \<longrightarrow>
               playbackTimeout startThrows (playNextChunk startThrows s) =
                 dispatchEvent
                   ((playNextChunk startThrows s)
                      \<lparr>currentSource := None, isPlaying := False, isSpeaking := False,
                       audioState := INACTIVE\<rparr>)
                   PLAYBACK_END (EndInfo SPEAKING False True))
         \<and> (\<forall>b' q'. q = b' # q' \<and> \<not> startThrows b' \<longrightarrow>
               currentSource (playbackTimeout startThrows (playNextChunk startThrows s)) = Some b'
               \<and> audioQueue (playbackTimeout startThrows (playNextChunk startThrows s)) = q'
               \<and> isPlaying (playbackTimeout startThrows (playNextChunk startThrows s))
               \<and> played (playbackTimeout startThrows (playNextChunk startThrows s))
                   = played (playNextChunk startThrows s) @ [b']
               \<and> playbackTimeoutId (playbackTimeout startThrows (playNextChunk startThrows s))
                   \<noteq> None)
         \<and> ClearTimeout (nextTimeoutHandle s)
             \<in> set (drop (length (effects (playNextChunk startThrows s)))
                       (effects (onended startThrows (playNextChunk startThrows s))))"
proof -
  let ?p = "playNextChunk startThrows s"
  have p: "?p = started s b q" using assms by (simp add: playNextChunk_started)
  have arm: "playbackTimeoutId ?p = Some (nextTimeoutHandle s)" unfolding p by simp
  have set: "SetTimeout (nextTimeoutHandle s) ((duration b * 1000) + 1000)
               \<in> set (drop (length (effects s)) (effects ?p))"
    unfolding p by simp
  have ctx: "audioContext ?p" unfolding p using assms(2) by simp
  have qp: "audioQueue ?p = q" unfolding p by simp
  have drain: "\<exists>k. 1 \<le> k \<and> k \<le> Suc (length q)
               \<and> \<not> isPlaying ((playbackTimeout startThrows ^^ k) ?p)
               \<and> \<not> isSpeaking ((playbackTimeout startThrows ^^ k) ?p)
               \<and> audioState ((playbackTimeout startThrows ^^ k) ?p) = INACTIVE
               \<and> eventCount PLAYBACK_END ((playbackTimeout startThrows ^^ k) ?p)
                   = eventCount PLAYBACK_END ?p + 1"
    using timeouts_drain[OF ctx, of startThrows] unfolding qp .
  have last: "playbackTimeout startThrows ?p =
                 dispatchEvent
                   (?p\<lparr>currentSource := None, isPlaying := False, isSpeaking := False,
                       audioState := INACTIVE\<rparr>)
                   PLAYBACK_END (EndInfo SPEAKING False True)" if "q = []"
    using that qp by (simp add: playbackTimeout_def Let_def)
  have nxt: "currentSource (playbackTimeout startThrows ?p) = Some b'
               \<and> audioQueue (playbackTimeout startThrows ?p) = q'
               \<and> isPlaying (playbackTimeout startThrows ?p)
               \<and> played (playbackTimeout startThrows ?p) = played ?p @ [b']
               \<and> playbackTimeoutId (playbackTimeout startThrows ?p) \<noteq> None"
    if "q = b' # q'" and "\<not> startThrows b'" for b' q'
  proof -
    have "playbackTimeout startThrows ?p = started (?p\<lparr>currentSource := None\<rparr>) b' q'"
      using that qp ctx by (simp add: playbackTimeout_def Let_def playNextChunk_started)
    moreover have "isPlaying ?p" unfolding p by simp
    ultimately show ?thesis by (simp add: played_def)
  qed
  have "effects (clearPlaybackTimeout ?p) = effects ?p @ [ClearTimeout (nextTimeoutHandle s)]"
    using arm by (simp add: clearing_def)
  moreover obtain new where
    "effects (playNextChunk startThrows (clearPlaybackTimeout ?p))
       = effects (clearPlaybackTimeout ?p) @ new"
    using playNextChunk_effects_prefix by blast
  ultimately have clr: "ClearTimeout (nextTimeoutHandle s)
             \<in> set (drop (length (effects ?p)) (effects (onended startThrows ?p)))"
    by (simp add: onended_def Let_def)
  from arm set drain last nxt clr show ?thesis by blast
qed

subsection \<open>The theorems at concrete inputs\<close>

lemma energy_loud: "calculateRMSEnergy (inputData loudFrame) = Some 1"
  by (simp add: calculateRMSEnergy_def loudFrame_def)

lemma energy_quiet: "calculateRMSEnergy (inputData quietFrame) = Some 0"
  by (simp add: calculateRMSEnergy_def quietFrame_def)

theorem protected_frame_only_visualised_witness:
  "effects (handleAudioProcess False (initialService\<lparr>isGreeting := True\<rparr>) loudFrame)
     = [Dispatch RECORDING_DATA (RecordingData [1] (Some 1) False)]
   \<and> audioBuffer (handleAudioProcess False (initialService\<lparr>isGreeting := True\<rparr>) loudFrame) = []"
proof -
  have p: "protected (initialService\<lparr>isGreeting := True\<rparr>)"
    by (simp add: protected_def)
  from protected_frame_only_visualised[OF p, of False loudFrame] show ?thesis
    by (simp add: energy_loud) (simp add: initialService_def loudFrame_def)
qed

theorem silence_emits_no_utterance_witness:
  "\<not> isVoiceDetected (processFrames False initialService
        [quietFrame, \<lparr>inputData = [], dateNow1 = 7100, dateNow2 = 7100\<rparr>])
   \<and> utterancesSent (stopRecording (processFrames False initialService
        [quietFrame, \<lparr>inputData = [], dateNow1 = 7100, dateNow2 = 7100\<rparr>])) = []"
proof -
  let ?events = "[quietFrame, \<lparr>inputData = [], dateNow1 = 7100, dateNow2 = 7100\<rparr>]"
  have a: "\<not> isVoiceDetected initialService" "audioBuffer initialService = []"
    by (simp_all add: initialService_def)
  have b1: "\<not> js_gt (calculateRMSEnergy (inputData quietFrame)) (voiceThreshold initialService)"
    unfolding energy_quiet by (simp add: js_gt_def initialService_def)
  have b2: "\<not> js_gt (calculateRMSEnergy [])  (voiceThreshold initialService)"
    by (simp add: js_gt_def calculateRMSEnergy_def)
  have b: "\<forall>e \<in> set ?events.
             \<not> js_gt (calculateRMSEnergy (inputData e)) (voiceThreshold initialService)"
    using b1 b2 by simp
  from silence_emits_no_utterance[OF a b, of False] have
    "(\<not> isVoiceDetected (processFrames False initialService (take 2 ?events)))
     \<and> utterancesSent (stopRecording (processFrames False initialService ?events))
         = utterancesSent initialService"
    by blast
  then show ?thesis by (simp add: utterancesSent_def initialService_def)
qed

theorem short_segment_discarded_witness:
  "audioBuffer (sendAudioChunk (initialService\<lparr>audioBuffer := [[1 / 2, 1 / 2]]\<rparr>)) = []
   \<and> effects (sendAudioChunk (initialService\<lparr>audioBuffer := [[1 / 2, 1 / 2]]\<rparr>)) = []"
proof -
  let ?s = "initialService\<lparr>audioBuffer := [[1 / 2, 1 / 2]]\<rparr>"
  have a: "\<not> isVoiceDetected ?s" by (simp add: initialService_def)
  have b: "js_lt (audioLengthMs (length (concat (audioBuffer ?s))) (sampleRate ?s))
             (minRecordingLength ?s)"
    by (simp add: initialService_def js_lt_def audioLengthMs_def)
  from short_segment_discarded[OF a b] show ?thesis
    by (simp add: initialService_def)
qed

theorem barge_in_interrupts_once_witness:
  "interruptsSent (processFrames False (handleAudioProcess False speakingService loudFrame)
      [loudFrame]) = 1
   \<and> audioQueue (handleAudioProcess False speakingService loudFrame) = []
   \<and> \<not> isSpeaking (handleAudioProcess False speakingService loudFrame)"
proof -
  have a: "\<not> protected speakingService"
    "js_gt (calculateRMSEnergy (inputData loudFrame)) (voiceThreshold speakingService)"
    "\<not> isVoiceDetected speakingService"
    "isSpeaking speakingService \<or> audioState speakingService = SPEAKING"
    "\<forall>g \<in> set [loudFrame].
       js_gt (calculateRMSEnergy (inputData g)) (voiceThreshold speakingService)"
    by (simp_all add: energy_loud js_gt_def speakingService_def initialService_def protected_def)
  have c: "currentSource speakingService = Some buffer1"
    "interruptsSent speakingService = 0"
    by (simp_all add: speakingService_def initialService_def interruptsSent_def)
  from barge_in_interrupts_once[OF a, of False] c show ?thesis by simp
qed

theorem interrupt_stops_and_clears_witness:
  "effects (stopPlayback False speakingService) =
     [ClearTimeout 1, SourceStop buffer1, Dispatch PLAYBACK_STOP (StopInfo True SPEAKING)]
   \<and> audioQueue (stopPlayback False speakingService) = []
   \<and> played (playbackRun (\<lambda>b. False) (stopPlayback False speakingService) [Ended, TimedOut]) = []"
proof -
  have a: "currentSource speakingService = Some buffer1" "audioState speakingService = SPEAKING"
    "\<forall>i \<in> set [Ended, TimedOut]. i = Ended \<or> i = TimedOut"
    by (simp_all add: speakingService_def initialService_def)
  from interrupt_stops_and_clears[OF a, of False "\<lambda>b. False"] show ?thesis
    by (simp add: speakingService_def initialService_def played_def)
qed

theorem batch_played_in_order_witness:
  "played (playbackRun (\<lambda>b. False) initialService
      [Enqueue buffer1, Enqueue buffer2, Ended, Enqueue buffer3, Ended, Ended])
     = [buffer1, buffer2, buffer3]
   \<and> eventCount PLAYBACK_START (playbackRun (\<lambda>b. False) initialService
      [Enqueue buffer1, Enqueue buffer2, Ended, Enqueue buffer3, Ended, Ended]) = 1
   \<and> eventCount PLAYBACK_END (playbackRun (\<lambda>b. False) initialService
      [Enqueue buffer1, Enqueue buffer2, Ended, Enqueue buffer3, Ended, Ended]) = 1"
proof -
  let ?rest = "[Enqueue buffer2, Ended, Enqueue buffer3, Ended, Ended]"
  have a: "\<not> isPlaying initialService" "audioQueue initialService = []"
    by (simp_all add: initialService_def)
  have b: "\<forall>b \<in> set (buffer1 # enqueued ?rest). \<not> (\<lambda>b. False) b" by simp
  have c: "oneBatch 1 ?rest" by simp
  from batch_played_in_order[OF a b c] show ?thesis
    by (simp add: played_def eventCount_def enqueued_def initialService_def)
qed

theorem safety_timer_bounds_playback_witness:
  "playbackTimeoutId (playNextChunk (\<lambda>b. False)
      (initialService\<lparr>audioContext := True, audioQueue := [buffer1, buffer2]\<rparr>)) = Some 1
   \<and> SetTimeout 1 2000 \<in> set (effects (playNextChunk (\<lambda>b. False)
      (initialService\<lparr>audioContext := True, audioQueue := [buffer1, buffer2]\<rparr>)))
   \<and> currentSource (playbackTimeout (\<lambda>b. False) (playNextChunk (\<lambda>b. False)
      (initialService\<lparr>audioContext := True, audioQueue := [buffer1, buffer2]\<rparr>))) = Some buffer2"
proof -
  let ?s = "initialService\<lparr>audioContext := True, audioQueue := [buffer1, buffer2]\<rparr>"
  have a: "audioQueue ?s = buffer1 # [buffer2]" "audioContext ?s" "\<not> (\<lambda>b. False) buffer1"
    by simp_all
  from safety_timer_bounds_playback[OF a] show ?thesis
    by (simp add: initialService_def buffer1_def)
qed


end
